theory Spec2Isabelle
  imports Complex_Main "HOL-Library.Log_Nat"
begin

section \<open>Worker processes and the registry\<close>

text \<open>
  The program keeps two module-level globals: the list \<open>processes\<close> of
  \<open>multiprocessing.Process\<close> objects and the event \<open>terminate_flag\<close>.
  A process object is modelled by a record that carries what the program can
  observe of it (\<open>alive\<close>), what has been done to it (\<open>signalled\<close>) and how
  the operating system will let it behave (\<open>beh\<close>).  Each object is appended
  to \<open>processes\<close> exactly once, so the list of records is the list of objects.
\<close>

datatype exn = OSError | ValueError | MemoryError | OverflowError | KeyboardInterrupt

text \<open>\<open>KeyboardInterrupt\<close> derives from \<open>BaseException\<close>, the others from \<open>Exception\<close>.\<close>

fun is_Exception :: "exn \<Rightarrow> bool" where
  "is_Exception KeyboardInterrupt = False"
| "is_Exception _ = True"

datatype outcome = Returned | Raised exn

datatype target = Cpu_worker_busy | Cpu_worker_throttle int | Memory_worker int

record behaviour =
  obeys :: bool
  is_alive_raises :: bool
  terminate_raises :: bool
  join_raises :: bool

record proc =
  pid :: nat
  target :: target
  alive :: bool
  signalled :: bool
  beh :: behaviour

datatype event =
    Set_flag
  | Is_alive nat
  | Terminate nat
  | Join nat
  | Start nat target
  | Ramp_step int
  | Sleep

record world =
  terminate_flag :: bool
  processes :: "proc list"
  trace :: "event list"
  created :: nat
  clock :: nat

subsection \<open>The three methods of a process object that the program calls\<close>

text \<open>
  \<open>p.is_alive()\<close> reports whether the child is still running.
  \<open>p.terminate()\<close> sends the termination signal to a running child and does
  nothing to one that has exited.  \<open>p.join(timeout=1)\<close> waits at most one
  second: a child that has been signalled and \<open>obeys\<close> has exited when the call
  returns, any other child is as it was.  Each call may raise instead (an
  \<open>Exception\<close> subclass), and then has no effect.
\<close>

definition is_alive :: "proc \<Rightarrow> exn + bool" where
  "is_alive p = (if is_alive_raises (beh p) then Inl ValueError else Inr (alive p))"

definition terminate :: "proc \<Rightarrow> exn + proc" where
  "terminate p =
     (if terminate_raises (beh p) then Inl OSError
      else Inr (if alive p then p\<lparr>signalled := True\<rparr> else p))"

definition join :: "proc \<Rightarrow> exn + proc" where
  "join p =
     (if join_raises (beh p) then Inl ValueError
      else Inr (if signalled p \<and> obeys (beh p) then p\<lparr>alive := False\<rparr> else p))"

subsection \<open>\<open>terminate_all\<close>\<close>

text \<open>\<open>try: ... except Exception: pass\<close> around a statement on one handle.\<close>

definition except_Exception_pass :: "outcome \<times> proc \<times> event list \<Rightarrow> outcome \<times> proc \<times> event list" where
  "except_Exception_pass r =
     (case r of
        (Raised e, s) \<Rightarrow> if is_Exception e then (Returned, s) else (Raised e, s)
      | (Returned, s) \<Rightarrow> (Returned, s))"

text \<open>Body of the first loop: \<open>if p.is_alive(): p.terminate()\<close>.\<close>

definition terminate_body :: "proc \<Rightarrow> outcome \<times> proc \<times> event list" where
  "terminate_body p =
     except_Exception_pass
       (case is_alive p of
          Inl e \<Rightarrow> (Raised e, p, [Is_alive (pid p)])
        | Inr a \<Rightarrow>
            if a then
              (case terminate p of
                 Inl e \<Rightarrow> (Raised e, p, [Is_alive (pid p), Terminate (pid p)])
               | Inr p' \<Rightarrow> (Returned, p', [Is_alive (pid p), Terminate (pid p)]))
            else (Returned, p, [Is_alive (pid p)]))"

text \<open>Body of the second loop: \<open>p.join(timeout=1)\<close>.\<close>

definition join_body :: "proc \<Rightarrow> outcome \<times> proc \<times> event list" where
  "join_body p =
     except_Exception_pass
       (case join p of
          Inl e \<Rightarrow> (Raised e, p, [Join (pid p)])
        | Inr p' \<Rightarrow> (Returned, p', [Join (pid p)]))"

text \<open>
  \<open>for p in processes: body\<close>.  An exception that leaves the body leaves the
  loop; the handles after it are not visited.
\<close>

fun for_each :: "(proc \<Rightarrow> outcome \<times> proc \<times> event list) \<Rightarrow> proc list \<Rightarrow> outcome \<times> proc list \<times> event list" where
  "for_each body [] = (Returned, [], [])"
| "for_each body (p # ps) =
     (case body p of
        (Raised e, p', ev) \<Rightarrow> (Raised e, p' # ps, ev)
      | (Returned, p', ev) \<Rightarrow>
          (case for_each body ps of (r, ps', evs) \<Rightarrow> (r, p' # ps', ev @ evs)))"

definition terminate_all :: "world \<Rightarrow> outcome \<times> world" where
  "terminate_all w =
     (let w1 = w\<lparr>terminate_flag := True, trace := trace w @ [Set_flag]\<rparr> in
      case for_each terminate_body (processes w1) of
        (Raised e, ps, ev) \<Rightarrow> (Raised e, w1\<lparr>processes := ps, trace := trace w1 @ ev\<rparr>)
      | (Returned, ps, ev) \<Rightarrow>
          (let w2 = w1\<lparr>processes := ps, trace := trace w1 @ ev\<rparr> in
           case for_each join_body (processes w2) of
             (r, ps', ev') \<Rightarrow> (r, w2\<lparr>processes := ps', trace := trace w2 @ ev'\<rparr>)))"


section \<open>The workers\<close>

text \<open>
  A worker runs in its own process and looks at the stop flag again and
  again.  It is run here against the list of the values it reads, in order:
  when the list ends without a \<open>True\<close> the worker is still running.  Times
  are seconds, exact where the source has floats.
\<close>

datatype wstatus = Running | Exited | Crashed exn

datatype wevent = Spin rat | Nap rat

fun cpu_worker_busy :: "bool list \<Rightarrow> wstatus \<times> wevent list" where
  "cpu_worker_busy [] = (Running, [])"
| "cpu_worker_busy (f # fs) = (if f then (Exited, []) else cpu_worker_busy fs)"

definition slice_time :: rat where
  "slice_time = 1 / 10"

definition busy_time :: "int \<Rightarrow> rat" where
  "busy_time load_percent = slice_time * of_int load_percent / 100"

text \<open>
  One slice: the inner loop spins until \<open>busy_time\<close> has passed since \<open>t0\<close>
  (not at all when \<open>busy_time\<close> is not positive), then the rest of the slice
  is slept if there is a rest.
\<close>

definition throttle_slice :: "int \<Rightarrow> wevent list" where
  "throttle_slice load_percent =
     (let elapsed = max 0 (busy_time load_percent);
          rem = slice_time - elapsed
      in Spin elapsed # (if rem > 0 then [Nap rem] else []))"

fun cpu_worker_throttle :: "int \<Rightarrow> bool list \<Rightarrow> wstatus \<times> wevent list" where
  "cpu_worker_throttle load_percent [] = (Running, [])"
| "cpu_worker_throttle load_percent (f # fs) =
     (if f then (Exited, [])
      else (case cpu_worker_throttle load_percent fs of
              (st, evs) \<Rightarrow> (st, throttle_slice load_percent @ evs)))"

subsection \<open>The memory worker and its heap\<close>

text \<open>
  Objects live in a store and are named by their position in it, so that two
  references to one object can be told from two objects.  A string takes a
  byte for each character and a list eight bytes for each reference (object
  headers are left out).  An allocation that does not fit into the memory
  left, or that asks for more bytes than a signed 64-bit size can count,
  raises \<open>MemoryError\<close>.
\<close>

datatype pyobj = PyStr string | PyList "nat list"

record heap =
  objs :: "pyobj list"
  avail :: nat

fun obj_bytes :: "pyobj \<Rightarrow> nat" where
  "obj_bytes (PyStr s) = length s"
| "obj_bytes (PyList refs) = 8 * length refs"

definition alloc :: "pyobj \<Rightarrow> heap \<Rightarrow> exn + nat \<times> heap" where
  "alloc ob h =
     (if avail h < obj_bytes ob \<or> 2 ^ 63 \<le> obj_bytes ob then Inl MemoryError
      else Inr (length (objs h), h\<lparr>objs := objs h @ [ob], avail := avail h - obj_bytes ob\<rparr>))"

text \<open>
  \<open>data = ['x' * 1024 * 1024] * int(size_in_mb)\<close>: the string \<open>'x' * 1024\<close>,
  that string 1024 times, the list of the one reference to it, and the list
  that repeats the references of that list.  A repeat count that does not fit
  a signed 64-bit index raises \<open>OverflowError\<close> before anything is allocated
  for the last list.
\<close>

definition build_data :: "int \<Rightarrow> heap \<Rightarrow> exn + nat \<times> heap" where
  "build_data size_in_mb h =
     (case alloc (PyStr (concat (replicate 1024 ''x''))) h of
        Inl x \<Rightarrow> Inl x
      | Inr (a1, h1) \<Rightarrow>
     (case alloc (PyStr (concat (replicate 1024 (concat (replicate 1024 ''x''))))) h1 of
        Inl x \<Rightarrow> Inl x
      | Inr (a2, h2) \<Rightarrow>
     (case alloc (PyList [a2]) h2 of
        Inl x \<Rightarrow> Inl x
      | Inr (a3, h3) \<Rightarrow>
          if size_in_mb < - (2 ^ 63) \<or> 2 ^ 63 \<le> size_in_mb then Inl OverflowError
          else alloc (PyList (concat (replicate (nat size_in_mb) [a2]))) h3)))"

text \<open>\<open>while not terminate_flag.is_set(): time.sleep(0.5)\<close>.\<close>

fun idle_loop :: "bool list \<Rightarrow> wstatus \<times> wevent list" where
  "idle_loop [] = (Running, [])"
| "idle_loop (f # fs) =
     (if f then (Exited, [])
      else (case idle_loop fs of (st, evs) \<Rightarrow> (st, Nap (1 / 2) # evs)))"

text \<open>
  \<open>try: ... except MemoryError: return\<close>; any other exception leaves the
  target and ends the process with a traceback.  The result names the object
  that \<open>data\<close> refers to while the worker holds it.
\<close>

definition memory_worker :: "int \<Rightarrow> heap \<Rightarrow> bool list \<Rightarrow> wstatus \<times> wevent list \<times> nat option \<times> heap" where
  "memory_worker size_in_mb h obs =
     (case build_data size_in_mb h of
        Inl x \<Rightarrow> if x = MemoryError then (Exited, [], None, h) else (Crashed x, [], None, h)
      | Inr (data, h') \<Rightarrow>
          (case idle_loop obs of (st, evs) \<Rightarrow> (st, evs, Some data, h')))"

text \<open>The objects a reference keeps in memory, each once, and their bytes.\<close>

definition held_objs :: "heap \<Rightarrow> nat \<Rightarrow> nat list" where
  "held_objs h a =
     (if a < length (objs h) then
        (case objs h ! a of PyStr s \<Rightarrow> [a] | PyList refs \<Rightarrow> remdups (a # refs))
      else [])"

definition held_bytes :: "heap \<Rightarrow> nat \<Rightarrow> nat" where
  "held_bytes h a =
     sum_list (map (\<lambda>b. if b < length (objs h) then obj_bytes (objs h ! b) else 0) (held_objs h a))"

text \<open>What a process runs: \<open>Process(target=f, args=...)\<close> calls \<open>f(*args)\<close> in the child.\<close>

fun run_target :: "target \<Rightarrow> heap \<Rightarrow> bool list \<Rightarrow> wstatus \<times> wevent list" where
  "run_target Cpu_worker_busy h obs = cpu_worker_busy obs"
| "run_target (Cpu_worker_throttle load_percent) h obs = cpu_worker_throttle load_percent obs"
| "run_target (Memory_worker size_mb) h obs =
     (case memory_worker size_mb h obs of (st, evs, _) \<Rightarrow> (st, evs))"

text \<open>A process is alive as long as its target has not returned.\<close>

definition observe :: "wstatus \<Rightarrow> proc \<Rightarrow> proc" where
  "observe st p = p\<lparr>alive := (st = Running)\<rparr>"

section \<open>Spawning and the ramp\<close>

text \<open>
  What the program cannot decide itself is collected in an environment:
  whether the operating system lets the next process be created
  (\<open>Process.start()\<close> raises \<open>OSError\<close> otherwise), how the process created
  as number \<open>n\<close> will behave, and whether somebody else (a signal handler, a
  child) sets the stop flag while the controller is in its \<open>k\<close>-th sleep of
  0.1 seconds.
\<close>

record env =
  can_start :: "nat \<Rightarrow> bool"
  behaviour_of :: "nat \<Rightarrow> behaviour"
  stop_during :: "nat \<Rightarrow> bool"

text \<open>\<open>p = multiprocessing.Process(target=t); p.start()\<close>.\<close>

definition start :: "env \<Rightarrow> target \<Rightarrow> world \<Rightarrow> (exn + proc) \<times> world" where
  "start e t w =
     (if can_start e (created w) then
        (Inr \<lparr>pid = created w, target = t, alive = True, signalled = False,
              beh = behaviour_of e (created w)\<rparr>,
         w\<lparr>trace := trace w @ [Start (created w) t], created := Suc (created w)\<rparr>)
      else (Inl OSError, w))"

definition spawn_cpu_worker :: "env \<Rightarrow> bool \<Rightarrow> int \<Rightarrow> world \<Rightarrow> (exn + proc) \<times> world" where
  "spawn_cpu_worker e use_busy load_percent w =
     (if use_busy \<or> load_percent = 100 then start e Cpu_worker_busy w
      else start e (Cpu_worker_throttle load_percent) w)"

definition spawn_mem_worker :: "env \<Rightarrow> int \<Rightarrow> world \<Rightarrow> (exn + proc) \<times> world" where
  "spawn_mem_worker e size_mb w = start e (Memory_worker size_mb) w"

text \<open>
  The arguments of \<open>start_ramp\<close>.  \<open>slices\<close> stands for \<open>speed\<close>: the wait loop
  adds the float 0.1 to \<open>slept\<close> after each sleep and goes on while
  \<open>slept < speed\<close>; \<open>slices\<close> is the number of sleeps after which that test
  first fails (about \<open>10 * speed\<close>; the rounding of the float sum decides the
  exact number).  The label \<open>area\<close> is read by the console thread only.
\<close>

record config =
  pc_amount :: int
  slices :: nat
  mem_mb :: int
  use_busy :: bool
  dry_run :: bool
  load_percent :: int

text \<open>
  \<open>for i in range(count)\<close>: a CPU worker, appended, then a memory worker,
  appended.  Nothing in the loop looks at the stop flag.
\<close>

fun spawn_wave :: "env \<Rightarrow> config \<Rightarrow> nat \<Rightarrow> world \<Rightarrow> outcome \<times> world" where
  "spawn_wave e c 0 w = (Returned, w)"
| "spawn_wave e c (Suc n) w =
     (case spawn_cpu_worker e (use_busy c) (load_percent c) w of
        (Inl x, w1) \<Rightarrow> (Raised x, w1)
      | (Inr p_cpu, w1) \<Rightarrow>
          (let w2 = w1\<lparr>processes := processes w1 @ [p_cpu]\<rparr> in
           case spawn_mem_worker e (mem_mb c) w2 of
             (Inl x, w3) \<Rightarrow> (Raised x, w3)
           | (Inr p_mem, w3) \<Rightarrow>
               spawn_wave e c n (w3\<lparr>processes := processes w3 @ [p_mem]\<rparr>)))"

text \<open>\<open>time.sleep(0.1)\<close> in the controller.\<close>

definition sleep_slice :: "env \<Rightarrow> world \<Rightarrow> world" where
  "sleep_slice e w =
     w\<lparr>terminate_flag := terminate_flag w \<or> stop_during e (clock w),
       trace := trace w @ [Sleep],
       clock := Suc (clock w)\<rparr>"

text \<open>\<open>while slept < speed and not terminate_flag.is_set()\<close>, \<open>n\<close> sleeps done so far.\<close>

function wait_loop :: "env \<Rightarrow> nat \<Rightarrow> nat \<Rightarrow> world \<Rightarrow> world" where
  "wait_loop e sl n w =
     (if n < sl \<and> \<not> terminate_flag w then wait_loop e sl (Suc n) (sleep_slice e w) else w)"
  by pat_completeness auto
termination
  by (relation "measure (\<lambda>(e, sl, n, w). sl - n)") auto

declare wait_loop.simps [simp del]

text \<open>
  \<open>while count <= pc_amount and not terminate_flag.is_set()\<close>.  For a count
  that is not positive the loop need not end, so the result is optional.
\<close>

partial_function (option) ramp_loop :: "env \<Rightarrow> config \<Rightarrow> int \<Rightarrow> world \<Rightarrow> (outcome \<times> world) option" where
  "ramp_loop e c count w =
     (if count \<le> pc_amount c \<and> \<not> terminate_flag w then
        (let w1 = w\<lparr>trace := trace w @ [Ramp_step count]\<rparr> in
         case (if dry_run c then (Returned, w1) else spawn_wave e c (nat count) w1) of
           (Raised x, w2) \<Rightarrow> Some (Raised x, w2)
         | (Returned, w2) \<Rightarrow> ramp_loop e c (count * 2) (wait_loop e (slices c) 0 w2))
      else Some (Returned, w))"

text \<open>\<open>except KeyboardInterrupt: pass\<close>; the \<open>finally\<close> block stops the console only.\<close>

definition except_KeyboardInterrupt_pass :: "outcome \<times> world \<Rightarrow> outcome \<times> world" where
  "except_KeyboardInterrupt_pass r =
     (case r of
        (Raised x, w) \<Rightarrow> if x = KeyboardInterrupt then (Returned, w) else (Raised x, w)
      | (Returned, w) \<Rightarrow> (Returned, w))"

definition start_ramp :: "env \<Rightarrow> config \<Rightarrow> world \<Rightarrow> (outcome \<times> world) option" where
  "start_ramp e c w = map_option except_KeyboardInterrupt_pass (ramp_loop e c 1 w)"

text \<open>The sizes of the waves a trace shows, in order.\<close>

fun wave_sizes :: "event list \<Rightarrow> int list" where
  "wave_sizes [] = []"
| "wave_sizes (Ramp_step n # evs) = n # wave_sizes evs"
| "wave_sizes (_ # evs) = wave_sizes evs"

text \<open>The processes a trace shows as started, in order.\<close>

fun started :: "event list \<Rightarrow> nat list" where
  "started [] = []"
| "started (Start i t # evs) = i # started evs"
| "started (_ # evs) = started evs"

subsection \<open>Sample surroundings\<close>

text \<open>A process that answers every call and exits when it is asked to.\<close>

definition compliant :: behaviour where
  "compliant = \<lparr>obeys = True, is_alive_raises = False, terminate_raises = False, join_raises = False\<rparr>"

text \<open>
  An operating system that creates \<open>limit\<close> processes and no more, where
  nobody else touches the stop flag.
\<close>

definition quiet_env :: "nat \<Rightarrow> env" where
  "quiet_env limit =
     \<lparr>can_start = (\<lambda>n. n < limit), behaviour_of = (\<lambda>n. compliant), stop_during = (\<lambda>k. False)\<rparr>"

section \<open>Properties of the registry\<close>

lemma terminate_body_eq:
  "terminate_body p =
     (Returned,
      (if is_alive p = Inr True \<and> \<not> terminate_raises (beh p) then p\<lparr>signalled := True\<rparr> else p),
      Is_alive (pid p) # (if is_alive p = Inr True then [Terminate (pid p)] else []))"
  by (simp add: terminate_body_def except_Exception_pass_def is_alive_def terminate_def)

lemma join_body_eq:
  "join_body p =
     (Returned,
      (if \<not> join_raises (beh p) \<and> signalled p \<and> obeys (beh p) then p\<lparr>alive := False\<rparr> else p),
      [Join (pid p)])"
  by (simp add: join_body_def except_Exception_pass_def join_def)

lemma for_each_total:
  "(\<And>p. fst (body p) = Returned) \<Longrightarrow>
   for_each body ps =
     (Returned, map (\<lambda>p. fst (snd (body p))) ps, concat (map (\<lambda>p. snd (snd (body p))) ps))"
proof (induction ps)
  case Nil
  show ?case by simp
next
  case (Cons p ps)
  obtain q ev where b: "body p = (Returned, q, ev)"
    using Cons.prems [of p] by (cases "body p") auto
  show ?case using Cons.IH Cons.prems by (simp add: b)
qed

lemma terminate_all_eq:
  "terminate_all w =
     (Returned,
      w\<lparr>terminate_flag := True,
        processes := map (\<lambda>p. fst (snd (join_body (fst (snd (terminate_body p)))))) (processes w),
        trace := trace w @ [Set_flag]
                 @ concat (map (\<lambda>p. snd (snd (terminate_body p))) (processes w))
                 @ concat (map (\<lambda>p. snd (snd (join_body (fst (snd (terminate_body p)))))) (processes w))\<rparr>)"
proof -
  have t: "for_each terminate_body ps =
     (Returned, map (\<lambda>p. fst (snd (terminate_body p))) ps, concat (map (\<lambda>p. snd (snd (terminate_body p))) ps))" for ps
    by (rule for_each_total) (simp add: terminate_body_eq)
  have j: "for_each join_body ps =
     (Returned, map (\<lambda>p. fst (snd (join_body p))) ps, concat (map (\<lambda>p. snd (snd (join_body p))) ps))" for ps
    by (rule for_each_total) (simp add: join_body_eq)
  show ?thesis
    by (simp add: terminate_all_def Let_def t j comp_def)
qed

text \<open>What the two loops make of one handle.\<close>

lemma reaped_pid: "pid (fst (snd (join_body (fst (snd (terminate_body p)))))) = pid p"
  by (simp add: terminate_body_eq join_body_eq)



lemma reaped_signalled:
  "signalled (fst (snd (join_body (fst (snd (terminate_body p)))))) \<longleftrightarrow>
   signalled p \<or> is_alive p = Inr True \<and> \<not> terminate_raises (beh p)"
  by (auto simp add: terminate_body_eq join_body_eq)



lemma terminate_events:
  "Terminate i \<in> set (snd (snd (terminate_body p))) \<longleftrightarrow> i = pid p \<and> is_alive p = Inr True"
  by (auto simp add: terminate_body_eq)


lemma terminate_in_trace:
  "Terminate i \<in> set (drop (length (trace w)) (trace (snd (terminate_all w)))) \<longleftrightarrow>
   (\<exists>p\<in>set (processes w). pid p = i \<and> is_alive p = Inr True)"
  by (auto simp add: terminate_all_eq terminate_events join_body_eq)







text \<open>
  C9 as stated has \<open>terminate_all\<close> remove the handles it terminated.  The list
  \<open>processes\<close> is never shortened: the terminated handle is still in it.
\<close>

theorem terminate_all_keeps_handle:
  "processes (snd (terminate_all
      \<lparr>terminate_flag = False,
       processes = [\<lparr>pid = 0, target = Cpu_worker_busy, alive = True, signalled = False, beh = compliant\<rparr>],
       trace = [], created = 1, clock = 0\<rparr>))
   = [\<lparr>pid = 0, target = Cpu_worker_busy, alive = False, signalled = True, beh = compliant\<rparr>]"
  by (simp add: terminate_all_eq terminate_body_eq join_body_eq is_alive_def compliant_def)

section \<open>Properties of spawning and of the wait between waves\<close>

lemma wave_sizes_append: "wave_sizes (xs @ ys) = wave_sizes xs @ wave_sizes ys"
  by (induction xs rule: wave_sizes.induct) simp_all

lemma started_append: "started (xs @ ys) = started xs @ started ys"
  by (induction xs rule: started.induct) simp_all

lemma spawn_wave_fail_cpu:
  "\<not> can_start e (created w) \<Longrightarrow> spawn_wave e c (Suc n) w = (Raised OSError, w)"
  by (simp add: spawn_cpu_worker_def start_def)

lemma spawn_wave_fail_mem:
  "can_start e (created w) \<Longrightarrow> \<not> can_start e (Suc (created w)) \<Longrightarrow>
   spawn_wave e c (Suc n) w =
     (Raised OSError,
      w\<lparr>trace := trace w @
           [Start (created w) (if use_busy c \<or> load_percent c = 100 then Cpu_worker_busy
                               else Cpu_worker_throttle (load_percent c))],
        created := Suc (created w),
        processes := processes w @
           [\<lparr>pid = created w,
             target = (if use_busy c \<or> load_percent c = 100 then Cpu_worker_busy
                       else Cpu_worker_throttle (load_percent c)),
             alive = True, signalled = False, beh = behaviour_of e (created w)\<rparr>]\<rparr>)"
  by (simp add: spawn_cpu_worker_def spawn_mem_worker_def start_def Let_def)

lemma spawn_wave_pair:
  "can_start e (created w) \<Longrightarrow> can_start e (Suc (created w)) \<Longrightarrow>
   spawn_wave e c (Suc n) w =
     spawn_wave e c n
      (w\<lparr>trace := trace w @
           [Start (created w) (if use_busy c \<or> load_percent c = 100 then Cpu_worker_busy
                               else Cpu_worker_throttle (load_percent c)),
            Start (Suc (created w)) (Memory_worker (mem_mb c))],
        created := Suc (Suc (created w)),
        processes := processes w @
           [\<lparr>pid = created w,
             target = (if use_busy c \<or> load_percent c = 100 then Cpu_worker_busy
                       else Cpu_worker_throttle (load_percent c)),
             alive = True, signalled = False, beh = behaviour_of e (created w)\<rparr>,
            \<lparr>pid = Suc (created w), target = Memory_worker (mem_mb c),
             alive = True, signalled = False, beh = behaviour_of e (Suc (created w))\<rparr>]\<rparr>)"
  by (simp add: spawn_cpu_worker_def spawn_mem_worker_def start_def Let_def)

lemma spawn_wave_flag:
  "spawn_wave e c n w = (r, w') \<Longrightarrow> terminate_flag w' = terminate_flag w \<and> clock w' = clock w"
proof (induction n arbitrary: w)
  case 0
  then show ?case by simp
next
  case (Suc n)
  consider "\<not> can_start e (created w)"
    | "can_start e (created w)" "\<not> can_start e (Suc (created w))"
    | "can_start e (created w)" "can_start e (Suc (created w))" by blast
  then show ?case
  proof cases
    case 1
    with Suc.prems show ?thesis by (simp add: spawn_wave_fail_cpu del: spawn_wave.simps)
  next
    case 2
    with Suc.prems show ?thesis by (auto simp add: spawn_wave_fail_mem simp del: spawn_wave.simps)
  next
    case 3
    with Suc.prems Suc.IH show ?thesis by (fastforce simp add: spawn_wave_pair simp del: spawn_wave.simps)
  qed
qed

lemma spawn_wave_created:
  "spawn_wave e c n w = (r, w') \<Longrightarrow>
   (\<forall>j<created w' - created w. can_start e (created w + j)) \<and>
   (r = Returned \<and> created w' = created w + 2 * n \<or>
    r = Raised OSError \<and> created w \<le> created w' \<and> created w' < created w + 2 * n \<and>
      \<not> can_start e (created w'))"
proof (induction n arbitrary: w)
  case 0
  then show ?case by simp
next
  case (Suc n)
  consider "\<not> can_start e (created w)"
    | "can_start e (created w)" "\<not> can_start e (Suc (created w))"
    | "can_start e (created w)" "can_start e (Suc (created w))" by blast
  then show ?case
  proof cases
    case 1
    with Suc.prems show ?thesis by (simp add: spawn_wave_fail_cpu del: spawn_wave.simps)
  next
    case 2
    with Suc.prems show ?thesis by (auto simp add: spawn_wave_fail_mem simp del: spawn_wave.simps)
  next
    case 3
    let ?w4 = "w\<lparr>trace := trace w @
           [Start (created w) (if use_busy c \<or> load_percent c = 100 then Cpu_worker_busy
                               else Cpu_worker_throttle (load_percent c)),
            Start (Suc (created w)) (Memory_worker (mem_mb c))],
        created := Suc (Suc (created w)),
        processes := processes w @
           [\<lparr>pid = created w,
             target = (if use_busy c \<or> load_percent c = 100 then Cpu_worker_busy
                       else Cpu_worker_throttle (load_percent c)),
             alive = True, signalled = False, beh = behaviour_of e (created w)\<rparr>,
            \<lparr>pid = Suc (created w), target = Memory_worker (mem_mb c),
             alive = True, signalled = False, beh = behaviour_of e (Suc (created w))\<rparr>]\<rparr>"
    have rec: "spawn_wave e c n ?w4 = (r, w')"
      using Suc.prems 3 by (simp add: spawn_wave_pair del: spawn_wave.simps)
    have cr: "created ?w4 = Suc (Suc (created w))" by simp
    note ih = Suc.IH [OF rec, unfolded cr]
    have C: "\<forall>j<created w' - created w. can_start e (created w + j)"
    proof (intro allI impI)
      fix j assume j: "j < created w' - created w"
      consider "j = 0" | "j = 1" | "2 \<le> j" by linarith
      then show "can_start e (created w + j)"
      proof cases
        case 1 then show ?thesis using 3 by simp
      next
        case 2 then show ?thesis using 3 by simp
      next
        case 3
        then have "j - 2 < created w' - Suc (Suc (created w))" using j by simp
        with ih have "can_start e (Suc (Suc (created w)) + (j - 2))" by blast
        moreover have "Suc (Suc (created w)) + (j - 2) = created w + j" using 3 by arith
        ultimately show ?thesis by (simp only:)
      qed
    qed
    from ih have "r = Returned \<and> created w' = created w + 2 * Suc n \<or>
       r = Raised OSError \<and> created w \<le> created w' \<and> created w' < created w + 2 * Suc n \<and>
      \<not> can_start e (created w')"
      by auto
    with C show ?thesis by blast
  qed
qed

lemma spawn_wave_tracks:
  "spawn_wave e c n w = (r, w') \<Longrightarrow>
   \<exists>new evs. processes w' = processes w @ new \<and> trace w' = trace w @ evs \<and>
     started evs = map pid new \<and> wave_sizes evs = [] \<and> (\<forall>p\<in>set new. alive p)"
proof (induction n arbitrary: w)
  case 0
  then show ?case by simp
next
  case (Suc n)
  consider "\<not> can_start e (created w)"
    | "can_start e (created w)" "\<not> can_start e (Suc (created w))"
    | "can_start e (created w)" "can_start e (Suc (created w))" by blast
  then show ?case
  proof cases
    case 1
    with Suc.prems show ?thesis by (simp add: spawn_wave_fail_cpu del: spawn_wave.simps)
  next
    case 2
    with Suc.prems show ?thesis by (auto simp add: spawn_wave_fail_mem simp del: spawn_wave.simps)
  next
    case 3
    let ?w4 = "w\<lparr>trace := trace w @
           [Start (created w) (if use_busy c \<or> load_percent c = 100 then Cpu_worker_busy
                               else Cpu_worker_throttle (load_percent c)),
            Start (Suc (created w)) (Memory_worker (mem_mb c))],
        created := Suc (Suc (created w)),
        processes := processes w @
           [\<lparr>pid = created w,
             target = (if use_busy c \<or> load_percent c = 100 then Cpu_worker_busy
                       else Cpu_worker_throttle (load_percent c)),
             alive = True, signalled = False, beh = behaviour_of e (created w)\<rparr>,
            \<lparr>pid = Suc (created w), target = Memory_worker (mem_mb c),
             alive = True, signalled = False, beh = behaviour_of e (Suc (created w))\<rparr>]\<rparr>"
    have rec: "spawn_wave e c n ?w4 = (r, w')"
      using Suc.prems 3 by (simp add: spawn_wave_pair del: spawn_wave.simps)
    from Suc.IH [OF rec] obtain new evs where
      n: "processes w' = processes ?w4 @ new" "trace w' = trace ?w4 @ evs"
         "started evs = map pid new" "wave_sizes evs = []" "\<forall>p\<in>set new. alive p"
      by blast
    show ?thesis
      apply (rule exI [of _ "drop (length (processes w)) (processes ?w4) @ new"])
      apply (rule exI [of _ "drop (length (trace w)) (trace ?w4) @ evs"])
      using n by (simp add: started_append wave_sizes_append)
  qed
qed

lemma wait_loop_set: "terminate_flag w \<Longrightarrow> wait_loop e sl n w = w"
  by (subst wait_loop.simps) simp

lemma wait_loop_done: "sl \<le> n \<Longrightarrow> wait_loop e sl n w = w"
  by (subst wait_loop.simps) simp

lemma wait_loop_step:
  "n < sl \<Longrightarrow> \<not> terminate_flag w \<Longrightarrow> wait_loop e sl n w = wait_loop e sl (Suc n) (sleep_slice e w)"
  by (subst wait_loop.simps) simp

lemma wait_loop_stop:
  "\<not> terminate_flag w \<Longrightarrow> n + k < sl \<Longrightarrow> stop_during e (clock w + k) \<Longrightarrow>
   \<forall>j<k. \<not> stop_during e (clock w + j) \<Longrightarrow>
   wait_loop e sl n w =
     w\<lparr>terminate_flag := True, trace := trace w @ replicate (Suc k) Sleep, clock := clock w + Suc k\<rparr>"
proof (induction k arbitrary: n w)
  case 0
  then show ?case
    by (subst wait_loop_step) (simp_all add: wait_loop_set sleep_slice_def)
next
  case (Suc k)
  let ?w = "sleep_slice e w"
  have nostop: "\<not> stop_during e (clock w)" using Suc.prems(4) by force
  have f: "\<not> terminate_flag ?w" using Suc.prems(1) nostop by (simp add: sleep_slice_def)
  have c: "clock ?w = Suc (clock w)" by (simp add: sleep_slice_def)
  have s: "stop_during e (clock ?w + k)" using Suc.prems(3) by (simp add: c)
  have q: "\<forall>j<k. \<not> stop_during e (clock ?w + j)"
  proof (intro allI impI)
    fix j assume "j < k"
    then have "\<not> stop_during e (clock w + Suc j)" using Suc.prems(4) [rule_format, of "Suc j"] by simp
    then show "\<not> stop_during e (clock ?w + j)" by (simp add: c)
  qed
  have "wait_loop e sl n w = wait_loop e sl (Suc n) ?w"
    using Suc.prems by (intro wait_loop_step) simp_all
  also have "\<dots> = ?w\<lparr>terminate_flag := True, trace := trace ?w @ replicate (Suc k) Sleep,
                      clock := clock ?w + Suc k\<rparr>"
    using Suc.prems(2) by (intro Suc.IH [OF f _ s q]) simp
  also have "\<dots> = w\<lparr>terminate_flag := True, trace := trace w @ replicate (Suc (Suc k)) Sleep,
                      clock := clock w + Suc (Suc k)\<rparr>"
    by (simp add: sleep_slice_def replicate_app_Cons_same)
  finally show ?case .
qed

lemma wait_loop_full:
  "\<not> terminate_flag w \<Longrightarrow> \<forall>j<sl - n. \<not> stop_during e (clock w + j) \<Longrightarrow>
   wait_loop e sl n w =
     w\<lparr>trace := trace w @ replicate (sl - n) Sleep, clock := clock w + (sl - n)\<rparr>"
proof (induction "sl - n" arbitrary: n w)
  case 0
  then show ?case by (simp add: wait_loop_done)
next
  case (Suc d)
  let ?w = "sleep_slice e w"
  have lt: "n < sl" and d: "d = sl - Suc n" using Suc.hyps(2) by simp_all
  have nostop: "\<not> stop_during e (clock w)" using Suc.prems(2) lt by force
  have f: "\<not> terminate_flag ?w" using Suc.prems(1) nostop by (simp add: sleep_slice_def)
  have c: "clock ?w = Suc (clock w)" by (simp add: sleep_slice_def)
  have q: "\<forall>j<sl - Suc n. \<not> stop_during e (clock ?w + j)"
  proof (intro allI impI)
    fix j assume "j < sl - Suc n"
    then have "\<not> stop_during e (clock w + Suc j)" using Suc.prems(2) [rule_format, of "Suc j"] by simp
    then show "\<not> stop_during e (clock ?w + j)" by (simp add: c)
  qed
  have sd: "sl - n = Suc (sl - Suc n)" using lt by simp
  have "wait_loop e sl n w = wait_loop e sl (Suc n) ?w"
    using Suc.prems lt by (intro wait_loop_step) simp_all
  also have "\<dots> = ?w\<lparr>trace := trace ?w @ replicate (sl - Suc n) Sleep, clock := clock ?w + (sl - Suc n)\<rparr>"
    by (rule Suc.hyps(1) [OF d f q])
  also have "\<dots> = w\<lparr>trace := trace w @ replicate (sl - n) Sleep, clock := clock w + (sl - n)\<rparr>"
    unfolding sd using f Suc.prems(1) by (simp add: sleep_slice_def replicate_app_Cons_same nostop)
  finally show ?case .
qed

text \<open>Whatever the surroundings do, a wait only sleeps and can only raise the flag.\<close>

lemma wait_loop_shape:
  "\<exists>k. processes (wait_loop e sl n w) = processes w \<and> created (wait_loop e sl n w) = created w \<and>
       trace (wait_loop e sl n w) = trace w @ replicate k Sleep \<and>
       clock (wait_loop e sl n w) = clock w + k \<and> n + k \<le> max n sl \<and>
       (terminate_flag w \<longrightarrow> terminate_flag (wait_loop e sl n w))"
proof (induction e sl n w rule: wait_loop.induct)
  case (1 e sl n w)
  show ?case
  proof (cases "n < sl \<and> \<not> terminate_flag w")
    case False
    then have "wait_loop e sl n w = w" by (subst wait_loop.simps) auto
    then show ?thesis by (intro exI [of _ 0]) simp
  next
    case True
    from 1 [OF True] obtain k where k:
      "processes (wait_loop e sl (Suc n) (sleep_slice e w)) = processes (sleep_slice e w)"
      "created (wait_loop e sl (Suc n) (sleep_slice e w)) = created (sleep_slice e w)"
      "trace (wait_loop e sl (Suc n) (sleep_slice e w)) = trace (sleep_slice e w) @ replicate k Sleep"
      "clock (wait_loop e sl (Suc n) (sleep_slice e w)) = clock (sleep_slice e w) + k"
      "Suc n + k \<le> max (Suc n) sl"
      by blast
    have eq: "wait_loop e sl n w = wait_loop e sl (Suc n) (sleep_slice e w)"
      using True by (intro wait_loop_step) simp_all
    show ?thesis
      unfolding eq using k True
      by (intro exI [of _ "Suc k"]) (simp add: sleep_slice_def replicate_app_Cons_same)
  qed
qed

section \<open>Properties of the ramp\<close>

lemma ramp_exit:
  "\<not> (count \<le> pc_amount c \<and> \<not> terminate_flag w) \<Longrightarrow> ramp_loop e c count w = Some (Returned, w)"
  by (subst ramp_loop.simps) auto

lemma ramp_step_dry:
  "count \<le> pc_amount c \<Longrightarrow> \<not> terminate_flag w \<Longrightarrow> dry_run c \<Longrightarrow>
   ramp_loop e c count w =
     ramp_loop e c (count * 2) (wait_loop e (slices c) 0 (w\<lparr>trace := trace w @ [Ramp_step count]\<rparr>))"
  by (subst ramp_loop.simps) (simp add: Let_def)

lemma ramp_step_spawn:
  "count \<le> pc_amount c \<Longrightarrow> \<not> terminate_flag w \<Longrightarrow> \<not> dry_run c \<Longrightarrow>
   spawn_wave e c (nat count) (w\<lparr>trace := trace w @ [Ramp_step count]\<rparr>) = (Returned, w2) \<Longrightarrow>
   ramp_loop e c count w = ramp_loop e c (count * 2) (wait_loop e (slices c) 0 w2)"
  by (subst ramp_loop.simps) (simp add: Let_def)

lemma ramp_step_raise:
  "count \<le> pc_amount c \<Longrightarrow> \<not> terminate_flag w \<Longrightarrow> \<not> dry_run c \<Longrightarrow>
   spawn_wave e c (nat count) (w\<lparr>trace := trace w @ [Ramp_step count]\<rparr>) = (Raised x, w2) \<Longrightarrow>
   ramp_loop e c count w = Some (Raised x, w2)"
  by (subst ramp_loop.simps) (simp add: Let_def)

lemma wave_sizes_replicate_Sleep: "wave_sizes (replicate k Sleep) = []"
  by (induction k) simp_all

lemma started_replicate_Sleep: "started (replicate k Sleep) = []"
  by (induction k) simp_all

text \<open>One whole wave without a stop and without a failing spawn.\<close>

lemma ramp_wave_quiet:
  assumes quiet: "\<forall>k. \<not> stop_during e k"
    and ok: "dry_run c \<or> (\<forall>n. can_start e n)"
    and le: "count \<le> pc_amount c" and pos: "0 < count" and nf: "\<not> terminate_flag w"
  shows "\<exists>w3. ramp_loop e c count w = ramp_loop e c (count * 2) w3 \<and> \<not> terminate_flag w3 \<and>
     wave_sizes (trace w3) = wave_sizes (trace w) @ [count] \<and>
     int (created w3) = int (created w) + (if dry_run c then 0 else 2 * count)"
proof -
  let ?w1 = "w\<lparr>trace := trace w @ [Ramp_step count]\<rparr>"
  have "\<exists>w2. ramp_loop e c count w = ramp_loop e c (count * 2) (wait_loop e (slices c) 0 w2) \<and>
      \<not> terminate_flag w2 \<and> wave_sizes (trace w2) = wave_sizes (trace w) @ [count] \<and>
      int (created w2) = int (created w) + (if dry_run c then 0 else 2 * count)"
  proof (cases "dry_run c")
    case True
    show ?thesis
      by (rule exI [of _ ?w1]) (use True le nf in \<open>simp add: ramp_step_dry wave_sizes_append\<close>)
  next
    case False
    obtain r w2 where sw: "spawn_wave e c (nat count) ?w1 = (r, w2)"
      by (cases "spawn_wave e c (nat count) ?w1")
    from spawn_wave_created [OF sw] ok False
    have r: "r = Returned" and cr: "created w2 = created ?w1 + 2 * nat count" by auto
    from spawn_wave_flag [OF sw] have fl: "terminate_flag w2 = terminate_flag ?w1" by simp
    from spawn_wave_tracks [OF sw] obtain evs where
      tr: "trace w2 = trace ?w1 @ evs" "wave_sizes evs = []" by blast
    have "ramp_loop e c count w = ramp_loop e c (count * 2) (wait_loop e (slices c) 0 w2)"
      using sw r le nf False by (intro ramp_step_spawn) simp_all
    moreover have "\<not> terminate_flag w2" using fl nf by simp
    moreover have "wave_sizes (trace w2) = wave_sizes (trace w) @ [count]"
      using tr by (simp add: wave_sizes_append)
    moreover have "int (created w2) = int (created w) + (if dry_run c then 0 else 2 * count)"
      using cr False pos by simp
    ultimately show ?thesis by blast
  qed
  then obtain w2 where w2:
    "ramp_loop e c count w = ramp_loop e c (count * 2) (wait_loop e (slices c) 0 w2)"
    "\<not> terminate_flag w2" "wave_sizes (trace w2) = wave_sizes (trace w) @ [count]"
    "int (created w2) = int (created w) + (if dry_run c then 0 else 2 * count)"
    by blast
  have full: "wait_loop e (slices c) 0 w2 =
      w2\<lparr>trace := trace w2 @ replicate (slices c - 0) Sleep, clock := clock w2 + (slices c - 0)\<rparr>"
    using w2(2) quiet by (intro wait_loop_full) simp_all
  show ?thesis
    by (rule exI [of _ "wait_loop e (slices c) 0 w2"])
       (use w2 in \<open>simp add: full wave_sizes_append wave_sizes_replicate_Sleep\<close>)
qed

lemma ramp_loop_completes:
  assumes quiet: "\<forall>k. \<not> stop_during e k"
    and ok: "dry_run c \<or> (\<forall>n. can_start e n)"
  shows "0 < count \<Longrightarrow> \<not> terminate_flag w \<Longrightarrow> pc_amount c < count * 2 ^ m \<Longrightarrow>
     \<forall>k<m. count * 2 ^ k \<le> pc_amount c \<Longrightarrow>
     \<exists>w'. ramp_loop e c count w = Some (Returned, w') \<and> \<not> terminate_flag w' \<and>
        wave_sizes (trace w') = wave_sizes (trace w) @ map (\<lambda>k. count * 2 ^ k) [0..<m] \<and>
        int (created w') = int (created w) +
           (if dry_run c then 0 else 2 * sum_list (map (\<lambda>k. count * 2 ^ k) [0..<m]))"
proof (induction m arbitrary: count w)
  case 0
  then have "ramp_loop e c count w = Some (Returned, w)" by (intro ramp_exit) simp
  with 0 show ?case by simp
next
  case (Suc m)
  have le: "count \<le> pc_amount c" using Suc.prems(4) [rule_format, of 0] by simp
  from ramp_wave_quiet [OF quiet ok le Suc.prems(1) Suc.prems(2)] obtain w3 where w3:
    "ramp_loop e c count w = ramp_loop e c (count * 2) w3" "\<not> terminate_flag w3"
    "wave_sizes (trace w3) = wave_sizes (trace w) @ [count]"
    "int (created w3) = int (created w) + (if dry_run c then 0 else 2 * count)"
    by blast
  have a: "0 < count * 2" using Suc.prems(1) by simp
  have b: "pc_amount c < count * 2 * 2 ^ m" using Suc.prems(3) by (simp add: mult.assoc)
  have d: "\<forall>k<m. count * 2 * 2 ^ k \<le> pc_amount c"
  proof (intro allI impI)
    fix k assume "k < m"
    then show "count * 2 * 2 ^ k \<le> pc_amount c"
      using Suc.prems(4) [rule_format, of "Suc k"] by (simp add: mult.assoc)
  qed
  from Suc.IH [OF a w3(2) b d] obtain w' where w':
    "ramp_loop e c (count * 2) w3 = Some (Returned, w')" "\<not> terminate_flag w'"
    "wave_sizes (trace w') = wave_sizes (trace w3) @ map (\<lambda>k. count * 2 * 2 ^ k) [0..<m]"
    "int (created w') = int (created w3) +
           (if dry_run c then 0 else 2 * sum_list (map (\<lambda>k. count * 2 * 2 ^ k) [0..<m]))"
    by blast
  have sh: "map (\<lambda>k. count * 2 ^ k) [0..<Suc m] = count # map (\<lambda>k. count * 2 * 2 ^ k) [0..<m]"
  proof -
    have "[0..<Suc m] = 0 # map Suc [0..<m]"
      by (simp add: upt_conv_Cons map_Suc_upt del: upt_Suc)
    then have "map (\<lambda>k. count * 2 ^ k) [0..<Suc m] = count # map ((\<lambda>k. count * 2 ^ k) \<circ> Suc) [0..<m]"
      by (simp del: upt_Suc)
    also have "(\<lambda>k. count * 2 ^ k) \<circ> Suc = (\<lambda>k. count * 2 * 2 ^ k)"
      by (rule ext) (simp add: mult.assoc)
    finally show ?thesis .
  qed
  show ?case
    unfolding sh
    by (rule exI [of _ w']) (use w3 w' in \<open>simp add: algebra_simps\<close>)
qed

lemma ramp_loop_inv:
  "ramp_loop e c count w = Some y \<Longrightarrow>
   (\<exists>new evs. processes (snd y) = processes w @ new \<and> trace (snd y) = trace w @ evs \<and>
       started evs = map pid new) \<and>
   (terminate_flag w \<longrightarrow> terminate_flag (snd y)) \<and>
   (\<forall>x. fst y = Raised x \<longrightarrow>
      x = OSError \<and> \<not> dry_run c \<and> \<not> terminate_flag (snd y) \<and> \<not> can_start e (created (snd y)))"
proof (induction e c count w y rule: ramp_loop.raw_induct [rotated 1, consumes 1])
  case (1 ramp_loop' e c count w y)
  show ?case
  proof (cases "count \<le> pc_amount c \<and> \<not> terminate_flag w")
    case False
    with 1(2) have "y = (Returned, w)" by auto
    then show ?thesis by simp
  next
    case True
    let ?w1 = "w\<lparr>trace := trace w @ [Ramp_step count]\<rparr>"
    obtain r w2 where sw: "(if dry_run c then (Returned, ?w1) else spawn_wave e c (nat count) ?w1) = (r, w2)"
      by (cases "if dry_run c then (Returned, ?w1) else spawn_wave e c (nat count) ?w1")
    have g2: "\<exists>new evs. processes w2 = processes w @ new \<and> trace w2 = trace w @ evs \<and>
        started evs = map pid new"
    proof (cases "dry_run c")
      case True
      with sw have "w2 = ?w1" by simp
      then show ?thesis
        by (intro exI [of _ "[]"] exI [of _ "[Ramp_step count]"]) simp
    next
      case False
      with sw have "spawn_wave e c (nat count) ?w1 = (r, w2)" by simp
      from spawn_wave_tracks [OF this] obtain new evs where
        "processes w2 = processes ?w1 @ new" "trace w2 = trace ?w1 @ evs" "started evs = map pid new"
        by blast
      then show ?thesis
        by (intro exI [of _ new] exI [of _ "Ramp_step count # evs"]) simp
    qed
    have f2: "terminate_flag w2 = terminate_flag w"
    proof (cases "dry_run c")
      case True
      with sw show ?thesis by auto
    next
      case False
      with sw have "spawn_wave e c (nat count) ?w1 = (r, w2)" by simp
      from spawn_wave_flag [OF this] show ?thesis by simp
    qed
    show ?thesis
    proof (cases r)
      case (Raised x)
      with 1(2) True sw have y: "y = (Raised x, w2)" by (simp add: Let_def)
      have nd: "\<not> dry_run c" using sw Raised by (auto split: if_splits)
      with sw have "spawn_wave e c (nat count) ?w1 = (Raised x, w2)" using Raised by simp
      from spawn_wave_created [OF this] have "x = OSError" "\<not> can_start e (created w2)" by auto
      with g2 f2 nd True show ?thesis by (simp add: y)
    next
      case Returned
      let ?w3 = "wait_loop e (slices c) 0 w2"
      from 1(2) True sw Returned have rec: "ramp_loop' e c (count * 2) ?w3 = Some y"
        by (simp add: Let_def)
      note ih = 1(1) [OF rec]
      from wait_loop_shape [of e "slices c" 0 w2] obtain k where k:
        "processes ?w3 = processes w2" "trace ?w3 = trace w2 @ replicate k Sleep"
        by blast
      from g2 obtain new evs where n2: "processes w2 = processes w @ new" "trace w2 = trace w @ evs"
        "started evs = map pid new" by blast
      from ih obtain new' evs' where n3: "processes (snd y) = processes ?w3 @ new'"
        "trace (snd y) = trace ?w3 @ evs'" "started evs' = map pid new'" by blast
      have "\<exists>new evs. processes (snd y) = processes w @ new \<and> trace (snd y) = trace w @ evs \<and>
          started evs = map pid new"
        by (intro exI [of _ "new @ new'"] exI [of _ "evs @ replicate k Sleep @ evs'"])
           (simp add: n2 n3 k started_append started_replicate_Sleep)
      with ih True show ?thesis by simp
    qed
  qed
qed

lemma spawn_wave_raises:
  "\<exists>j<2 * n. \<not> can_start e (created w + j) \<Longrightarrow> fst (spawn_wave e c n w) = Raised OSError"
proof -
  assume ex: "\<exists>j<2 * n. \<not> can_start e (created w + j)"
  obtain r w' where sw: "spawn_wave e c n w = (r, w')" by (cases "spawn_wave e c n w")
  from spawn_wave_created [OF sw] ex have "r = Raised OSError" by auto
  with sw show ?thesis by simp
qed

lemma start_ramp_first_wave_fails:
  assumes "1 \<le> pc_amount c" "\<not> dry_run c" "\<not> terminate_flag w"
    "\<exists>j<2. \<not> can_start e (created w + j)"
  shows "\<exists>w'. start_ramp e c w = Some (Raised OSError, w')"
proof -
  let ?w1 = "w\<lparr>trace := trace w @ [Ramp_step 1]\<rparr>"
  obtain r w2 where sw: "spawn_wave e c (nat 1) ?w1 = (r, w2)" by (cases "spawn_wave e c (nat 1) ?w1")
  have "fst (spawn_wave e c (nat 1) ?w1) = Raised OSError"
    using assms(4) by (intro spawn_wave_raises) simp
  with sw have r: "r = Raised OSError" by simp
  have "ramp_loop e c 1 w = Some (Raised OSError, w2)"
    using assms sw r by (intro ramp_step_raise) simp_all
  then show ?thesis
    by (simp add: start_ramp_def except_KeyboardInterrupt_pass_def)
qed

lemma start_ramp_inv:
  assumes "start_ramp e c w = Some (r, w')"
  shows "ramp_loop e c 1 w = Some (r, w')"
proof -
  from assms obtain r0 w0 where rl: "ramp_loop e c 1 w = Some (r0, w0)"
    and ex: "except_KeyboardInterrupt_pass (r0, w0) = (r, w')"
    by (auto simp add: start_ramp_def)
  from ramp_loop_inv [OF rl] have "r0 \<noteq> Raised KeyboardInterrupt" by auto
  with ex have "r0 = r \<and> w0 = w'"
    by (cases r0) (auto simp add: except_KeyboardInterrupt_pass_def split: if_splits)
  with rl show ?thesis by simp
qed

lemma start_ramp_eq:
  "ramp_loop e c 1 w = Some (r, w') \<Longrightarrow> start_ramp e c w = Some (r, w')"
proof -
  assume rl: "ramp_loop e c 1 w = Some (r, w')"
  from ramp_loop_inv [OF rl] have "r \<noteq> Raised KeyboardInterrupt" by auto
  then show ?thesis
    by (cases r) (auto simp add: start_ramp_def rl except_KeyboardInterrupt_pass_def)
qed

lemma ramp_flag_set: "terminate_flag w \<Longrightarrow> ramp_loop e c count w = Some (Returned, w)"
  by (intro ramp_exit) simp


lemma log2_bounds:
  assumes "1 \<le> (C::int)"
  shows "2 ^ nat \<lfloor>log 2 (real_of_int C)\<rfloor> \<le> C \<and> C < 2 * 2 ^ nat \<lfloor>log 2 (real_of_int C)\<rfloor>"
proof -
  have pos: "0 < nat C" using assms by simp
  have fl: "floorlog 2 (nat C) = nat \<lfloor>log 2 (real_of_int C)\<rfloor> + 1"
    using assms by (simp add: floorlog_def)
  from floorlog_bounds [OF pos, of 2]
  have "2 ^ (floorlog 2 (nat C) - 1) \<le> nat C \<and> nat C < 2 ^ floorlog 2 (nat C)" by simp
  then have "(2::nat) ^ nat \<lfloor>log 2 (real_of_int C)\<rfloor> \<le> nat C \<and>
       nat C < 2 * 2 ^ nat \<lfloor>log 2 (real_of_int C)\<rfloor>"
    by (simp add: fl)
  then have "int (2 ^ nat \<lfloor>log 2 (real_of_int C)\<rfloor>) \<le> C \<and>
       C < int (2 * 2 ^ nat \<lfloor>log 2 (real_of_int C)\<rfloor>)"
    using assms by linarith
  then show ?thesis by simp
qed

text \<open>
  C2.  With a ceiling of at least 1, the stop flag unset and never set by
  anyone, and no failing process creation, \<open>start_ramp\<close> returns normally
  (Completed); the waves it adds have the sizes \<open>2 ^ 0, 2 ^ 1, \<dots>\<close>, there are
  \<open>floor (log2 ceiling) + 1\<close> of them, each size is at most the ceiling and the
  next doubling exceeds it; a wave of size \<open>n\<close> creates \<open>2 * n\<close> processes.
\<close>

theorem start_ramp_wave_sizes:
  assumes "1 \<le> pc_amount c" and "\<not> terminate_flag w"
    and "\<forall>k. \<not> stop_during e k" and "dry_run c \<or> (\<forall>n. can_start e n)"
  shows "\<exists>w'. start_ramp e c w = Some (Returned, w') \<and> \<not> terminate_flag w' \<and>
     wave_sizes (trace w') =
       wave_sizes (trace w) @ map (\<lambda>k. 2 ^ k) [0..<nat \<lfloor>log 2 (real_of_int (pc_amount c))\<rfloor> + 1] \<and>
     (\<forall>k<nat \<lfloor>log 2 (real_of_int (pc_amount c))\<rfloor> + 1. (2::int) ^ k \<le> pc_amount c) \<and>
     pc_amount c < 2 ^ (nat \<lfloor>log 2 (real_of_int (pc_amount c))\<rfloor> + 1) \<and>
     int (created w') = int (created w) +
       (if dry_run c then 0
        else 2 * sum_list (map (\<lambda>k. 2 ^ k) [0..<nat \<lfloor>log 2 (real_of_int (pc_amount c))\<rfloor> + 1]))"
proof -
  let ?L = "nat \<lfloor>log 2 (real_of_int (pc_amount c))\<rfloor>"
  from log2_bounds [OF assms(1)]
  have lo: "2 ^ ?L \<le> pc_amount c" and hi: "pc_amount c < 2 * 2 ^ ?L" by simp_all
  have below: "\<forall>k<?L + 1. (2::int) ^ k \<le> pc_amount c"
  proof (intro allI impI)
    fix k assume "k < ?L + 1"
    then have "k \<le> ?L" by simp
    then have "(2::int) ^ k \<le> 2 ^ ?L" by (intro power_increasing) simp_all
    with lo show "(2::int) ^ k \<le> pc_amount c" by linarith
  qed
  have above: "pc_amount c < 1 * 2 ^ (?L + 1)" using hi by simp
  have below1: "\<forall>k<?L + 1. 1 * (2::int) ^ k \<le> pc_amount c" using below by simp
  from ramp_loop_completes [OF assms(3) assms(4) _ assms(2) above below1]
  obtain w' where w': "ramp_loop e c 1 w = Some (Returned, w')" "\<not> terminate_flag w'"
    "wave_sizes (trace w') = wave_sizes (trace w) @ map (\<lambda>k. 1 * 2 ^ k) [0..<?L + 1]"
    "int (created w') = int (created w) +
           (if dry_run c then 0 else 2 * sum_list (map (\<lambda>k. 1 * 2 ^ k) [0..<?L + 1]))"
    by auto
  have "start_ramp e c w = Some (Returned, w')" using w'(1) by (rule start_ramp_eq)
  with w' below hi show ?thesis by simp
qed

lemma log2_5: "nat \<lfloor>log 2 (5::real)\<rfloor> = 2"
proof -
  have "floorlog 2 5 = 3" by (simp add: compute_floorlog)
  then show ?thesis by (simp add: floorlog_def)
qed

text \<open>Ceiling 5: the waves 1, 2, 4 and fourteen processes.\<close>

theorem start_ramp_wave_sizes_witness:
  "(1::int) \<le> 5 \<and>
   (\<exists>w'. start_ramp
           \<lparr>can_start = (\<lambda>n. True), behaviour_of = (\<lambda>n. compliant), stop_during = (\<lambda>k. False)\<rparr>
           \<lparr>pc_amount = 5, slices = 20, mem_mb = 128, use_busy = True, dry_run = False, load_percent = 98\<rparr>
           \<lparr>terminate_flag = False, processes = [], trace = [], created = 0, clock = 0\<rparr>
         = Some (Returned, w') \<and>
         wave_sizes (trace w') = [1, 2, 4] \<and> created w' = 14)"
  using start_ramp_wave_sizes [of
           "\<lparr>pc_amount = 5, slices = 20, mem_mb = 128, use_busy = True, dry_run = False, load_percent = 98\<rparr>"
           "\<lparr>terminate_flag = False, processes = [], trace = [], created = 0, clock = 0\<rparr>"
           "\<lparr>can_start = (\<lambda>n. True), behaviour_of = (\<lambda>n. compliant), stop_during = (\<lambda>k. False)\<rparr>"]
  by (auto simp add: log2_5 numeral_3_eq_3)

text \<open>
  C8.  The wait between waves does not sleep at all when the flag is set on
  entry.  When the flag is set during the sleep number \<open>k + 1\<close> of the wait,
  the wait returns right after that sleep, after \<open>k + 1\<close> sleeps of 0.1
  seconds and however many slices were left, and the wave loop then ends
  without another wave.
\<close>

theorem wait_loop_returns_within_one_slice:
  "(terminate_flag w \<longrightarrow> wait_loop e sl 0 w = w) \<and>
   (\<not> terminate_flag w \<and> k < sl \<and> stop_during e (clock w + k) \<and>
    (\<forall>j<k. \<not> stop_during e (clock w + j)) \<longrightarrow>
      wait_loop e sl 0 w =
        w\<lparr>terminate_flag := True, trace := trace w @ replicate (Suc k) Sleep,
          clock := clock w + Suc k\<rparr> \<and>
      ramp_loop e c count (wait_loop e sl 0 w) = Some (Returned, wait_loop e sl 0 w))"
proof (intro conjI impI)
  assume "terminate_flag w"
  then show "wait_loop e sl 0 w = w" by (rule wait_loop_set)
next
  assume a: "\<not> terminate_flag w \<and> k < sl \<and> stop_during e (clock w + k) \<and>
    (\<forall>j<k. \<not> stop_during e (clock w + j))"
  then show eq: "wait_loop e sl 0 w =
        w\<lparr>terminate_flag := True, trace := trace w @ replicate (Suc k) Sleep,
          clock := clock w + Suc k\<rparr>"
    by (intro wait_loop_stop) simp_all
  then have "terminate_flag (wait_loop e sl 0 w)" by simp
  then show "ramp_loop e c count (wait_loop e sl 0 w) = Some (Returned, wait_loop e sl 0 w)"
    by (rule ramp_flag_set)
qed

text \<open>Twenty slices to wait, the flag set during the fourth: four sleeps.\<close>

theorem wait_loop_returns_within_one_slice_witness:
  "\<not> terminate_flag \<lparr>terminate_flag = False, processes = [], trace = [], created = 0, clock = 0\<rparr> \<and>
   (3::nat) < 20 \<and>
   stop_during \<lparr>can_start = (\<lambda>n. True), behaviour_of = (\<lambda>n. compliant), stop_during = (\<lambda>k. k = 3)\<rparr> 3 \<and>
   wait_loop \<lparr>can_start = (\<lambda>n. True), behaviour_of = (\<lambda>n. compliant), stop_during = (\<lambda>k. k = 3)\<rparr> 20 0
       \<lparr>terminate_flag = False, processes = [], trace = [], created = 0, clock = 0\<rparr>
     = \<lparr>terminate_flag = True, processes = [], trace = [Sleep, Sleep, Sleep, Sleep], created = 0, clock = 4\<rparr>"
  using wait_loop_returns_within_one_slice [of
       "\<lparr>terminate_flag = False, processes = [], trace = [], created = 0, clock = 0\<rparr>"
       "\<lparr>can_start = (\<lambda>n. True), behaviour_of = (\<lambda>n. compliant), stop_during = (\<lambda>k. k = 3)\<rparr>"
       20 3]
  by (simp add: numeral_eq_Suc)

lemma started_concat:
  "(\<And>p. started (f p) = []) \<Longrightarrow> started (concat (map f ps)) = []"
  by (induction ps) (simp_all add: started_append)

lemma terminate_all_started: "started (trace (snd (terminate_all w))) = started (trace w)"
proof -
  have a: "started (concat (map (\<lambda>p. snd (snd (terminate_body p))) ps)) = []" for ps
    by (rule started_concat) (simp add: terminate_body_eq)
  have b: "started (concat (map (\<lambda>p. snd (snd (join_body (fst (snd (terminate_body p)))))) ps)) = []" for ps
    by (rule started_concat) (simp add: join_body_eq)
  show ?thesis
    by (simp add: terminate_all_eq started_append a b)
qed



text \<open>
  C9 (as amended).  Whatever way \<open>start_ramp\<close> ends, \<open>processes\<close> afterwards is
  the list from before followed by the handles of exactly the processes that
  were started, in order: no handle is started and not tracked, none is
  removed.  \<open>terminate_all\<close> starts nothing and keeps every handle in the list.
\<close>

theorem handles_stay_tracked:
  "(\<forall>r w'. start_ramp e c w = Some (r, w') \<longrightarrow>
      (\<exists>new evs. processes w' = processes w @ new \<and> trace w' = trace w @ evs \<and>
         started evs = map pid new)) \<and>
   map pid (processes (snd (terminate_all w))) = map pid (processes w) \<and>
   started (trace (snd (terminate_all w))) = started (trace w)"
proof (intro conjI allI impI)
  fix r w' assume "start_ramp e c w = Some (r, w')"
  then have "ramp_loop e c 1 w = Some (r, w')" by (rule start_ramp_inv)
  from ramp_loop_inv [OF this]
  show "\<exists>new evs. processes w' = processes w @ new \<and> trace w' = trace w @ evs \<and>
         started evs = map pid new" by simp
next
  show "map pid (processes (snd (terminate_all w))) = map pid (processes w)"
    by (simp add: terminate_all_eq reaped_pid comp_def)
next
  show "started (trace (snd (terminate_all w))) = started (trace w)"
    by (rule terminate_all_started)
qed

lemma start_ramp_one_wave:
  "start_ramp (quiet_env 2)
      \<lparr>pc_amount = 1, slices = 2, mem_mb = 128, use_busy = True, dry_run = False, load_percent = 98\<rparr>
      \<lparr>terminate_flag = False, processes = [], trace = [], created = 0, clock = 0\<rparr>
    = Some (Returned,
        \<lparr>terminate_flag = False,
         processes = [\<lparr>pid = 0, target = Cpu_worker_busy, alive = True, signalled = False, beh = compliant\<rparr>,
                      \<lparr>pid = 1, target = Memory_worker 128, alive = True, signalled = False, beh = compliant\<rparr>],
         trace = [Ramp_step 1, Start 0 Cpu_worker_busy, Start 1 (Memory_worker 128), Sleep, Sleep],
         created = 2, clock = 2\<rparr>)"
proof -
  let ?c = "\<lparr>pc_amount = 1, slices = 2, mem_mb = 128, use_busy = True, dry_run = False, load_percent = 98\<rparr>"
  let ?w = "\<lparr>terminate_flag = False, processes = [], trace = [], created = 0, clock = 0\<rparr>"
  let ?w2 = "\<lparr>terminate_flag = False,
         processes = [\<lparr>pid = 0, target = Cpu_worker_busy, alive = True, signalled = False, beh = compliant\<rparr>,
                      \<lparr>pid = 1, target = Memory_worker 128, alive = True, signalled = False, beh = compliant\<rparr>],
         trace = [Ramp_step 1, Start 0 Cpu_worker_busy, Start 1 (Memory_worker 128)],
         created = 2, clock = 0\<rparr>"
  let ?w3 = "\<lparr>terminate_flag = False,
         processes = [\<lparr>pid = 0, target = Cpu_worker_busy, alive = True, signalled = False, beh = compliant\<rparr>,
                      \<lparr>pid = 1, target = Memory_worker 128, alive = True, signalled = False, beh = compliant\<rparr>],
         trace = [Ramp_step 1, Start 0 Cpu_worker_busy, Start 1 (Memory_worker 128), Sleep, Sleep],
         created = 2, clock = 2\<rparr>"
  have sw: "spawn_wave (quiet_env 2) ?c (nat 1) (?w\<lparr>trace := trace ?w @ [Ramp_step 1]\<rparr>) = (Returned, ?w2)"
    by (simp add: quiet_env_def spawn_cpu_worker_def spawn_mem_worker_def start_def)
  have wl: "wait_loop (quiet_env 2) (slices ?c) 0 ?w2 = ?w3"
    using wait_loop_full [of ?w2 2 0 "quiet_env 2"]
    by (simp add: quiet_env_def numeral_2_eq_2)
  have "ramp_loop (quiet_env 2) ?c 1 ?w = ramp_loop (quiet_env 2) ?c (1 * 2) (wait_loop (quiet_env 2) (slices ?c) 0 ?w2)"
    using sw by (intro ramp_step_spawn) simp_all
  also have "\<dots> = Some (Returned, ?w3)"
    unfolding wl by (intro ramp_exit) simp
  finally show ?thesis by (rule start_ramp_eq)
qed

text \<open>One wave: both processes it starts are in the list.\<close>

theorem handles_stay_tracked_witness:
  "start_ramp (quiet_env 2)
      \<lparr>pc_amount = 1, slices = 2, mem_mb = 128, use_busy = True, dry_run = False, load_percent = 98\<rparr>
      \<lparr>terminate_flag = False, processes = [], trace = [], created = 0, clock = 0\<rparr>
    = Some (Returned,
        \<lparr>terminate_flag = False,
         processes = [\<lparr>pid = 0, target = Cpu_worker_busy, alive = True, signalled = False, beh = compliant\<rparr>,
                      \<lparr>pid = 1, target = Memory_worker 128, alive = True, signalled = False, beh = compliant\<rparr>],
         trace = [Ramp_step 1, Start 0 Cpu_worker_busy, Start 1 (Memory_worker 128), Sleep, Sleep],
         created = 2, clock = 2\<rparr>) \<and>
   (\<exists>new evs.
      [\<lparr>pid = 0, target = Cpu_worker_busy, alive = True, signalled = False, beh = compliant\<rparr>,
       \<lparr>pid = 1, target = Memory_worker 128, alive = True, signalled = False, beh = compliant\<rparr>] = [] @ new \<and>
      [Ramp_step 1, Start 0 Cpu_worker_busy, Start 1 (Memory_worker 128), Sleep, Sleep] = [] @ evs \<and>
      started evs = map pid new)"
  using handles_stay_tracked [of "quiet_env 2"
      "\<lparr>pc_amount = 1, slices = 2, mem_mb = 128, use_busy = True, dry_run = False, load_percent = 98\<rparr>"
      "\<lparr>terminate_flag = False, processes = [], trace = [], created = 0, clock = 0\<rparr>"]
    start_ramp_one_wave
  by simp

lemma start_ramp_mem_start_fails:
  "start_ramp (quiet_env 1)
      \<lparr>pc_amount = 4, slices = 20, mem_mb = 128, use_busy = True, dry_run = False, load_percent = 98\<rparr>
      \<lparr>terminate_flag = False, processes = [], trace = [], created = 0, clock = 0\<rparr>
    = Some (Raised OSError,
        \<lparr>terminate_flag = False,
         processes = [\<lparr>pid = 0, target = Cpu_worker_busy, alive = True, signalled = False, beh = compliant\<rparr>],
         trace = [Ramp_step 1, Start 0 Cpu_worker_busy], created = 1, clock = 0\<rparr>)"
proof -
  let ?c = "\<lparr>pc_amount = 4, slices = 20, mem_mb = 128, use_busy = True, dry_run = False, load_percent = 98\<rparr>"
  let ?w = "\<lparr>terminate_flag = False, processes = [], trace = [], created = 0, clock = 0\<rparr>"
  let ?w2 = "\<lparr>terminate_flag = False,
         processes = [\<lparr>pid = 0, target = Cpu_worker_busy, alive = True, signalled = False, beh = compliant\<rparr>],
         trace = [Ramp_step 1, Start 0 Cpu_worker_busy], created = 1, clock = 0\<rparr>"
  have sw: "spawn_wave (quiet_env 1) ?c (nat 1) (?w\<lparr>trace := trace ?w @ [Ramp_step 1]\<rparr>) = (Raised OSError, ?w2)"
    by (simp add: quiet_env_def spawn_cpu_worker_def spawn_mem_worker_def start_def)
  have "ramp_loop (quiet_env 1) ?c 1 ?w = Some (Raised OSError, ?w2)"
    using sw by (intro ramp_step_raise) simp_all
  then show ?thesis by (rule start_ramp_eq)
qed

text \<open>A creation that fails in the wave the loop is about to start.\<close>

lemma ramp_loop_wave_raises:
  assumes "count \<le> pc_amount c" and "\<not> terminate_flag w" and "\<not> dry_run c"
    and "\<exists>j<2 * nat count. \<not> can_start e (created w + j)"
  shows "\<exists>w'. ramp_loop e c count w = Some (Raised OSError, w')"
proof -
  let ?w1 = "w\<lparr>trace := trace w @ [Ramp_step count]\<rparr>"
  obtain r w2 where sw: "spawn_wave e c (nat count) ?w1 = (r, w2)"
    by (cases "spawn_wave e c (nat count) ?w1")
  have "fst (spawn_wave e c (nat count) ?w1) = Raised OSError"
    using assms(4) by (intro spawn_wave_raises) simp
  with sw have "spawn_wave e c (nat count) ?w1 = (Raised OSError, w2)" by simp
  with assms have "ramp_loop e c count w = Some (Raised OSError, w2)"
    by (intro ramp_step_raise) simp_all
  then show ?thesis by blast
qed

text \<open>
  A creation that fails in the wave \<open>i\<close> waves ahead, or in one before it, when
  nobody sets the stop flag during the waits in between.
\<close>

lemma ramp_loop_raises:
  assumes nd: "\<not> dry_run c"
  shows "0 < count \<Longrightarrow> \<not> terminate_flag w \<Longrightarrow> count * 2 ^ i \<le> pc_amount c \<Longrightarrow>
     \<forall>k<i * slices c. \<not> stop_during e (clock w + k) \<Longrightarrow>
     f + 2 * nat count < 2 * nat count * 2 ^ (i + 1) \<Longrightarrow>
     \<not> can_start e (created w + f) \<Longrightarrow>
     \<exists>w'. ramp_loop e c count w = Some (Raised OSError, w')"
proof (induction i arbitrary: count w f)
  case 0
  have "f < 2 * nat count" using "0.prems"(5) by simp
  with "0.prems"(6) have "\<exists>j<2 * nat count. \<not> can_start e (created w + j)" by blast
  moreover have "count \<le> pc_amount c" using "0.prems"(3) by simp
  ultimately show ?case using "0.prems"(2) nd by (intro ramp_loop_wave_raises)
next
  case (Suc i)
  have p2: "(1::int) \<le> 2 ^ Suc i" by (rule one_le_power) simp
  have "count * 1 \<le> count * 2 ^ Suc i"
    using Suc.prems(1) p2 by (intro mult_left_mono) simp_all
  with Suc.prems(3) have le: "count \<le> pc_amount c" by simp
  show ?case
  proof (cases "f < 2 * nat count")
    case True
    with Suc.prems(6) have "\<exists>j<2 * nat count. \<not> can_start e (created w + j)" by blast
    with le Suc.prems(2) nd show ?thesis by (intro ramp_loop_wave_raises)
  next
    case False
    let ?w1 = "w\<lparr>trace := trace w @ [Ramp_step count]\<rparr>"
    obtain r w2 where sw: "spawn_wave e c (nat count) ?w1 = (r, w2)"
      by (cases "spawn_wave e c (nat count) ?w1")
    show ?thesis
    proof (cases r)
      case (Raised x)
      from spawn_wave_created [OF sw] Raised have "x = OSError" by auto
      with sw Raised have "spawn_wave e c (nat count) ?w1 = (Raised OSError, w2)" by simp
      with le Suc.prems(2) nd have "ramp_loop e c count w = Some (Raised OSError, w2)"
        by (intro ramp_step_raise) simp_all
      then show ?thesis by blast
    next
      case Returned
      from spawn_wave_created [OF sw] Returned
      have cr: "created w2 = created w + 2 * nat count" by auto
      from spawn_wave_flag [OF sw]
      have fl: "\<not> terminate_flag w2" and ck: "clock w2 = clock w"
        using Suc.prems(2) by simp_all
      let ?w3 = "wait_loop e (slices c) 0 w2"
      have q: "\<forall>j<slices c - 0. \<not> stop_during e (clock w2 + j)"
      proof (intro allI impI)
        fix j assume "j < slices c - 0"
        then have "j < Suc i * slices c" by simp
        with Suc.prems(4) show "\<not> stop_during e (clock w2 + j)" by (simp add: ck)
      qed
      have full: "?w3 = w2\<lparr>trace := trace w2 @ replicate (slices c - 0) Sleep,
                            clock := clock w2 + (slices c - 0)\<rparr>"
        by (rule wait_loop_full [OF fl q])
      have step: "ramp_loop e c count w = ramp_loop e c (count * 2) ?w3"
        using sw Returned le Suc.prems(2) nd by (intro ramp_step_spawn) simp_all
      have a: "0 < count * 2" using Suc.prems(1) by simp
      have b: "\<not> terminate_flag ?w3" using fl by (simp add: full)
      have d: "count * 2 * 2 ^ i \<le> pc_amount c" using Suc.prems(3) by (simp add: mult.assoc)
      have g: "\<forall>k<i * slices c. \<not> stop_during e (clock ?w3 + k)"
      proof (intro allI impI)
        fix k assume "k < i * slices c"
        then have "slices c + k < Suc i * slices c" by simp
        with Suc.prems(4) have "\<not> stop_during e (clock w + (slices c + k))" by blast
        then show "\<not> stop_during e (clock ?w3 + k)" by (simp add: full ck add.assoc)
      qed
      have n2: "nat (count * 2) = 2 * nat count" using Suc.prems(1) by simp
      have ge: "2 * nat count \<le> f" using False by simp
      have "f + 2 * nat count < 2 * nat count * 2 ^ (Suc i + 1)" by (rule Suc.prems(5))
      then have "f + 2 * nat count < 4 * nat count * 2 ^ (i + 1)" by simp
      with ge have h: "(f - 2 * nat count) + 2 * nat (count * 2) < 2 * nat (count * 2) * 2 ^ (i + 1)"
        unfolding n2 by simp
      have "created ?w3 + (f - 2 * nat count) = created w + f"
        using ge by (simp add: full cr)
      with Suc.prems(6) have k: "\<not> can_start e (created ?w3 + (f - 2 * nat count))" by simp
      from Suc.IH [OF a b d g h k] step show ?thesis by simp
    qed
  qed
qed

text \<open>
  C4 as stated has the controller turn a failed process creation into a
  normal stop.  Here the operating system creates one process and refuses the
  second: the \<open>OSError\<close> leaves \<open>start_ramp\<close>, and the stop flag stays unset.
\<close>

theorem start_ramp_raises_on_spawn_failure:
  "start_ramp (quiet_env 1)
      \<lparr>pc_amount = 4, slices = 20, mem_mb = 128, use_busy = True, dry_run = False, load_percent = 98\<rparr>
      \<lparr>terminate_flag = False, processes = [], trace = [], created = 0, clock = 0\<rparr>
    = Some (Raised OSError,
        \<lparr>terminate_flag = False,
         processes = [\<lparr>pid = 0, target = Cpu_worker_busy, alive = True, signalled = False, beh = compliant\<rparr>],
         trace = [Ramp_step 1, Start 0 Cpu_worker_busy], created = 1, clock = 0\<rparr>)"
  by (rule start_ramp_mem_start_fails)

text \<open>
  C4 (as amended).  A process creation that fails inside a wave's spawn loop
  makes that loop raise \<open>OSError\<close>, and the wave loop with it, whichever wave
  it is; \<open>start_ramp\<close> catches only \<open>KeyboardInterrupt\<close>, so the exception
  leaves it: when wave \<open>i\<close> exists, nobody sets the stop flag in the waits
  before it and a creation among those of the waves up to it fails,
  \<open>start_ramp\<close> raises \<open>OSError\<close>.  Whenever an exception leaves \<open>start_ramp\<close>
  it is that \<open>OSError\<close>: the stop flag is unset, nothing was started after the
  failure, every process started before it is in \<open>processes\<close>, and
  \<open>terminate_all\<close> afterwards returns normally and sends a termination request
  to each of them that is alive.
\<close>

theorem spawn_failure_leaves_start_ramp:
  "((\<exists>j<2 * n. \<not> can_start e (created w + j)) \<longrightarrow> fst (spawn_wave e c n w) = Raised OSError) \<and>
   (1 \<le> pc_amount c \<and> \<not> dry_run c \<and> \<not> terminate_flag w \<and> (\<exists>j<2. \<not> can_start e (created w + j)) \<longrightarrow>
      (\<exists>w'. start_ramp e c w = Some (Raised OSError, w'))) \<and>
   (\<forall>x w'. start_ramp e c w = Some (Raised x, w') \<longrightarrow>
      x = OSError \<and> \<not> dry_run c \<and> \<not> can_start e (created w') \<and> \<not> terminate_flag w' \<and>
      (\<exists>new evs. processes w' = processes w @ new \<and> trace w' = trace w @ evs \<and>
         started evs = map pid new) \<and>
      fst (terminate_all w') = Returned \<and>
      (\<forall>p\<in>set (processes w'). is_alive p = Inr True \<longrightarrow>
         Terminate (pid p) \<in> set (drop (length (trace w')) (trace (snd (terminate_all w')))))) \<and>
   (count \<le> pc_amount c \<and> \<not> terminate_flag w \<and> \<not> dry_run c \<and>
    (\<exists>j<2 * nat count. \<not> can_start e (created w + j)) \<longrightarrow>
      (\<exists>w'. ramp_loop e c count w = Some (Raised OSError, w'))) \<and>
   (2 ^ i \<le> pc_amount c \<and> \<not> dry_run c \<and> \<not> terminate_flag w \<and>
    (\<forall>k<i * slices c. \<not> stop_during e (clock w + k)) \<and>
    f < 2 * (2 ^ (i + 1) - 1) \<and> \<not> can_start e (created w + f) \<longrightarrow>
      (\<exists>w'. start_ramp e c w = Some (Raised OSError, w')))"
proof -
  have 1: "(\<exists>j<2 * n. \<not> can_start e (created w + j)) \<longrightarrow> fst (spawn_wave e c n w) = Raised OSError"
    by (auto intro: spawn_wave_raises)
  have 2: "1 \<le> pc_amount c \<and> \<not> dry_run c \<and> \<not> terminate_flag w \<and> (\<exists>j<2. \<not> can_start e (created w + j)) \<longrightarrow>
      (\<exists>w'. start_ramp e c w = Some (Raised OSError, w'))"
    by (auto intro!: start_ramp_first_wave_fails)
  have 3: "x = OSError \<and> \<not> dry_run c \<and> \<not> can_start e (created w') \<and> \<not> terminate_flag w' \<and>
      (\<exists>new evs. processes w' = processes w @ new \<and> trace w' = trace w @ evs \<and>
         started evs = map pid new) \<and>
      fst (terminate_all w') = Returned \<and>
      (\<forall>p\<in>set (processes w'). is_alive p = Inr True \<longrightarrow>
         Terminate (pid p) \<in> set (drop (length (trace w')) (trace (snd (terminate_all w')))))"
    if a: "start_ramp e c w = Some (Raised x, w')" for x w'
  proof -
    from a have rl: "ramp_loop e c 1 w = Some (Raised x, w')" by (rule start_ramp_inv)
    from ramp_loop_inv [OF rl]
    have i: "x = OSError \<and> \<not> dry_run c \<and> \<not> can_start e (created w') \<and> \<not> terminate_flag w' \<and>
      (\<exists>new evs. processes w' = processes w @ new \<and> trace w' = trace w @ evs \<and>
         started evs = map pid new)" by simp
    have t: "fst (terminate_all w') = Returned" by (simp add: terminate_all_eq)
    have r: "\<forall>p\<in>set (processes w'). is_alive p = Inr True \<longrightarrow>
         Terminate (pid p) \<in> set (drop (length (trace w')) (trace (snd (terminate_all w'))))"
      unfolding terminate_in_trace by blast
    from i t r show ?thesis by blast
  qed
  have 4: "count \<le> pc_amount c \<and> \<not> terminate_flag w \<and> \<not> dry_run c \<and>
    (\<exists>j<2 * nat count. \<not> can_start e (created w + j)) \<longrightarrow>
      (\<exists>w'. ramp_loop e c count w = Some (Raised OSError, w'))"
    by (auto intro!: ramp_loop_wave_raises)
  have 5: "2 ^ i \<le> pc_amount c \<and> \<not> dry_run c \<and> \<not> terminate_flag w \<and>
    (\<forall>k<i * slices c. \<not> stop_during e (clock w + k)) \<and>
    f < 2 * (2 ^ (i + 1) - 1) \<and> \<not> can_start e (created w + f) \<longrightarrow>
      (\<exists>w'. start_ramp e c w = Some (Raised OSError, w'))"
  proof
    assume h: "2 ^ i \<le> pc_amount c \<and> \<not> dry_run c \<and> \<not> terminate_flag w \<and>
      (\<forall>k<i * slices c. \<not> stop_during e (clock w + k)) \<and>
      f < 2 * (2 ^ (i + 1) - 1) \<and> \<not> can_start e (created w + f)"
    have p: "(1::nat) \<le> 2 ^ i" by (rule one_le_power) simp
    from h have "f < 2 * (2 * 2 ^ i - 1)" by simp
    with p have "f + 2 < 4 * 2 ^ i" by arith
    then have b: "f + 2 * nat 1 < 2 * nat 1 * 2 ^ (i + 1)" by simp
    from h have nd: "\<not> dry_run c" and nf: "\<not> terminate_flag w"
      and le: "1 * 2 ^ i \<le> pc_amount c"
      and q: "\<forall>k<i * slices c. \<not> stop_during e (clock w + k)"
      and cs: "\<not> can_start e (created w + f)" by simp_all
    from ramp_loop_raises [OF nd _ nf le q b cs]
    obtain w' where "ramp_loop e c 1 w = Some (Raised OSError, w')" by auto
    then have "start_ramp e c w = Some (Raised OSError, w')" by (rule start_ramp_eq)
    then show "\<exists>w'. start_ramp e c w = Some (Raised OSError, w')" by blast
  qed
  from 1 2 3 4 5 show ?thesis by blast
qed

text \<open>
  The second creation fails: the first worker is tracked and can be
  terminated.  And the fourth creation fails, in the second wave.
\<close>

theorem spawn_failure_leaves_start_ramp_witness:
  "(1::int) \<le> 4 \<and> \<not> can_start (quiet_env 1) 1 \<and>
   start_ramp (quiet_env 1)
      \<lparr>pc_amount = 4, slices = 20, mem_mb = 128, use_busy = True, dry_run = False, load_percent = 98\<rparr>
      \<lparr>terminate_flag = False, processes = [], trace = [], created = 0, clock = 0\<rparr>
    = Some (Raised OSError,
        \<lparr>terminate_flag = False,
         processes = [\<lparr>pid = 0, target = Cpu_worker_busy, alive = True, signalled = False, beh = compliant\<rparr>],
         trace = [Ramp_step 1, Start 0 Cpu_worker_busy], created = 1, clock = 0\<rparr>) \<and>
   Terminate 0 \<in> set (drop 2 (trace (snd (terminate_all
        \<lparr>terminate_flag = False,
         processes = [\<lparr>pid = 0, target = Cpu_worker_busy, alive = True, signalled = False, beh = compliant\<rparr>],
         trace = [Ramp_step 1, Start 0 Cpu_worker_busy], created = 1, clock = 0\<rparr>)))) \<and>
   (2::int) ^ 1 \<le> 4 \<and> (3::nat) < 2 * (2 ^ (1 + 1) - 1) \<and> \<not> can_start (quiet_env 3) 3 \<and>
   (\<exists>w'. start_ramp (quiet_env 3)
      \<lparr>pc_amount = 4, slices = 20, mem_mb = 128, use_busy = True, dry_run = False, load_percent = 98\<rparr>
      \<lparr>terminate_flag = False, processes = [], trace = [], created = 0, clock = 0\<rparr>
    = Some (Raised OSError, w'))"
proof -
  let ?c = "\<lparr>pc_amount = 4, slices = 20, mem_mb = 128, use_busy = True, dry_run = False, load_percent = 98\<rparr>"
  let ?w = "\<lparr>terminate_flag = False, processes = [], trace = [], created = 0, clock = 0\<rparr>"
  note t1 = spawn_failure_leaves_start_ramp [where e = "quiet_env 1" and c = ?c and w = ?w]
  from t1 have "\<forall>x w'. start_ramp (quiet_env 1) ?c ?w = Some (Raised x, w') \<longrightarrow>
      (\<forall>p\<in>set (processes w'). is_alive p = Inr True \<longrightarrow>
         Terminate (pid p) \<in> set (drop (length (trace w')) (trace (snd (terminate_all w')))))"
    by blast
  from this [rule_format, OF start_ramp_mem_start_fails]
  have a: "Terminate 0 \<in> set (drop 2 (trace (snd (terminate_all
        \<lparr>terminate_flag = False,
         processes = [\<lparr>pid = 0, target = Cpu_worker_busy, alive = True, signalled = False, beh = compliant\<rparr>],
         trace = [Ramp_step 1, Start 0 Cpu_worker_busy], created = 1, clock = 0\<rparr>))))"
    by (simp add: is_alive_def compliant_def numeral_2_eq_2)
  note t3 = spawn_failure_leaves_start_ramp [where e = "quiet_env 3" and c = ?c and w = ?w
      and i = 1 and f = 3]
  have b: "\<exists>w'. start_ramp (quiet_env 3) ?c ?w = Some (Raised OSError, w')"
    using t3 [THEN conjunct2, THEN conjunct2, THEN conjunct2, THEN conjunct2]
    by (simp add: quiet_env_def)
  show ?thesis
    using a b start_ramp_mem_start_fails by (simp add: quiet_env_def)
qed

section \<open>Properties of the workers\<close>

lemma cpu_worker_throttle_slices:
  "cpu_worker_throttle lp (replicate k False @ fs) =
     (fst (cpu_worker_throttle lp fs),
      concat (replicate k (throttle_slice lp)) @ snd (cpu_worker_throttle lp fs))"
  by (induction k) (simp_all add: case_prod_unfold)

lemma throttle_slice_below_100:
  "lp < 100 \<Longrightarrow>
   throttle_slice lp =
     [Spin (max 0 (1 / 10 * of_int lp / 100)), Nap (1 / 10 - max 0 (1 / 10 * of_int lp / 100))]"
  by (simp add: throttle_slice_def Let_def busy_time_def slice_time_def max_def)

lemma cpu_worker_busy_slices:
  "cpu_worker_busy (replicate k False @ fs) = cpu_worker_busy fs"
  by (induction k) simp_all

text \<open>
  C5 (as amended).  \<open>spawn_cpu_worker\<close> starts the throttled worker only when
  \<open>use_busy\<close> is false and \<open>load_percent\<close> is not 100; with \<open>use_busy\<close> true it
  starts the busy worker, which never sleeps, whatever \<open>load_percent\<close> is.  For
  \<open>load_percent < 100\<close> the throttled worker looks at the stop flag before
  every slice of 0.1 seconds and, in a slice, spins for
  \<open>0.1 * load_percent / 100\<close> seconds (not at all when that is not positive)
  and sleeps for the rest of the slice.
\<close>

theorem throttled_worker_duty_cycle:
  "(can_start e (created w) \<longrightarrow>
      (\<exists>p w'. spawn_cpu_worker e ub lp w = (Inr p, w') \<and>
         target p = (if ub \<or> lp = 100 then Cpu_worker_busy else Cpu_worker_throttle lp))) \<and>
   run_target Cpu_worker_busy h (replicate k False @ [True]) = (Exited, []) \<and>
   (lp < 100 \<longrightarrow>
      run_target (Cpu_worker_throttle lp) h (replicate k False @ [True]) =
        (Exited,
         concat (replicate k
           [Spin (max 0 (1 / 10 * of_int lp / 100)),
            Nap (1 / 10 - max 0 (1 / 10 * of_int lp / 100))])) \<and>
      run_target (Cpu_worker_throttle lp) h (replicate k False) =
        (Running,
         concat (replicate k
           [Spin (max 0 (1 / 10 * of_int lp / 100)),
            Nap (1 / 10 - max 0 (1 / 10 * of_int lp / 100))])))"
proof -
  have 1: "can_start e (created w) \<longrightarrow>
      (\<exists>p w'. spawn_cpu_worker e ub lp w = (Inr p, w') \<and>
         target p = (if ub \<or> lp = 100 then Cpu_worker_busy else Cpu_worker_throttle lp))"
    by (simp add: spawn_cpu_worker_def start_def)
  have 2: "run_target Cpu_worker_busy h (replicate k False @ [True]) = (Exited, [])"
    by (simp add: cpu_worker_busy_slices)
  have 3: "lp < 100 \<longrightarrow>
      run_target (Cpu_worker_throttle lp) h (replicate k False @ [True]) =
        (Exited,
         concat (replicate k
           [Spin (max 0 (1 / 10 * of_int lp / 100)),
            Nap (1 / 10 - max 0 (1 / 10 * of_int lp / 100))])) \<and>
      run_target (Cpu_worker_throttle lp) h (replicate k False) =
        (Running,
         concat (replicate k
           [Spin (max 0 (1 / 10 * of_int lp / 100)),
            Nap (1 / 10 - max 0 (1 / 10 * of_int lp / 100))]))"
  proof
    assume lt: "lp < 100"
    have a: "cpu_worker_throttle lp (replicate k False @ [True]) =
        (Exited, concat (replicate k (throttle_slice lp)))"
      by (simp add: cpu_worker_throttle_slices)
    have b: "cpu_worker_throttle lp (replicate k False @ []) =
        (Running, concat (replicate k (throttle_slice lp)))"
      unfolding cpu_worker_throttle_slices by simp
    show "run_target (Cpu_worker_throttle lp) h (replicate k False @ [True]) =
        (Exited,
         concat (replicate k
           [Spin (max 0 (1 / 10 * of_int lp / 100)),
            Nap (1 / 10 - max 0 (1 / 10 * of_int lp / 100))])) \<and>
      run_target (Cpu_worker_throttle lp) h (replicate k False) =
        (Running,
         concat (replicate k
           [Spin (max 0 (1 / 10 * of_int lp / 100)),
            Nap (1 / 10 - max 0 (1 / 10 * of_int lp / 100))]))"
      using a b by (simp add: throttle_slice_below_100 [OF lt])
  qed
  from 1 2 3 show ?thesis by blast
qed

text \<open>Load 98 without the busy loop, two slices before the stop.\<close>

theorem throttled_worker_duty_cycle_witness:
  "(98::int) < 100 \<and> can_start (quiet_env 1) 0 \<and>
   fst (spawn_cpu_worker (quiet_env 1) False 98
          \<lparr>terminate_flag = False, processes = [], trace = [], created = 0, clock = 0\<rparr>)
     = Inr \<lparr>pid = 0, target = Cpu_worker_throttle 98, alive = True, signalled = False, beh = compliant\<rparr> \<and>
   run_target (Cpu_worker_throttle 98) \<lparr>objs = [], avail = 0\<rparr> [False, False, True]
     = (Exited, [Spin (49 / 500), Nap (1 / 500), Spin (49 / 500), Nap (1 / 500)])"
  using throttled_worker_duty_cycle [of "quiet_env 1"
          "\<lparr>terminate_flag = False, processes = [], trace = [], created = 0, clock = 0\<rparr>"
          False 98 "\<lparr>objs = [], avail = 0\<rparr>" 2]
  by (simp add: quiet_env_def spawn_cpu_worker_def start_def numeral_2_eq_2)

text \<open>
  C5 as stated promises the duty cycle for every \<open>load_percent\<close> below 100.
  With \<open>use_busy\<close> true, as the menu passes it, load 98 starts the busy worker.
\<close>

theorem busy_worker_despite_load_percent:
  "fst (spawn_cpu_worker (quiet_env 1) True 98
          \<lparr>terminate_flag = False, processes = [], trace = [], created = 0, clock = 0\<rparr>)
     = Inr \<lparr>pid = 0, target = Cpu_worker_busy, alive = True, signalled = False, beh = compliant\<rparr> \<and>
   run_target Cpu_worker_busy \<lparr>objs = [], avail = 0\<rparr> [False, False, True] = (Exited, [])"
  by (simp add: quiet_env_def spawn_cpu_worker_def start_def)

lemma length_concat_replicate: "length (concat (replicate n xs)) = n * length xs"
  by (induction n) simp_all

lemma concat_replicate_single: "concat (replicate n [a]) = replicate n a"
  by (induction n) simp_all

lemma remdups_replicate: "remdups (replicate n a) = (if n = 0 then [] else [a])"
  by (induction n) auto

lemma idle_loop_slices:
  "idle_loop (replicate k False @ fs) =
     (fst (idle_loop fs), replicate k (Nap (1 / 2)) @ snd (idle_loop fs))"
  by (induction k) (simp_all add: case_prod_unfold replicate_app_Cons_same)

lemma build_data_ok:
  assumes "1049608 + 8 * nat n \<le> avail h" and "- (2 ^ 63) \<le> n" and "n < 2 ^ 60"
  shows "build_data n h =
     Inr (length (objs h) + 3,
          h\<lparr>objs := objs h @
               [PyStr (concat (replicate 1024 ''x'')),
                PyStr (concat (replicate 1024 (concat (replicate 1024 ''x'')))),
                PyList [length (objs h) + 1],
                PyList (replicate (nat n) (length (objs h) + 1))],
            avail := avail h - (1049608 + 8 * nat n)\<rparr>)"
proof -
  have big: "\<not> (2 ^ 63 \<le> 8 * nat n)" using assms(3) by simp
  have rng: "\<not> (n < - (2 ^ 63) \<or> 2 ^ 63 \<le> n)" using assms(2,3) by simp
  have 1: "\<not> avail h < 1024" "\<not> avail h - 1024 < 1048576" "\<not> avail h - 1049600 < 8"
    "\<not> avail h - 1049608 < 8 * nat n"
    using assms(1) by simp_all
  show ?thesis
    using 1 big rng
    by (simp add: build_data_def alloc_def length_concat_replicate concat_replicate_single)
qed

lemma build_data_no_room:
  assumes "avail h < 1049608"
  shows "build_data n h = Inl MemoryError"
  using assms
  by (auto simp add: build_data_def alloc_def length_concat_replicate)

lemma build_data_overflow:
  assumes "1049608 \<le> avail h" and "n < - (2 ^ 63) \<or> 2 ^ 63 \<le> n"
  shows "build_data n h = Inl OverflowError"
proof -
  have 1: "\<not> avail h < 1024" "\<not> avail h - 1024 < 1048576" "\<not> avail h - 1049600 < 8"
    using assms(1) by simp_all
  show ?thesis
    using 1 assms(2)
    by (simp add: build_data_def alloc_def length_concat_replicate)
qed

lemma build_data_list_too_big:
  assumes "1049608 \<le> avail h" and "- (2 ^ 63) \<le> n" and "n < 2 ^ 63"
    and "avail h < 1049608 + 8 * nat n \<or> 2 ^ 60 \<le> n"
  shows "build_data n h = Inl MemoryError"
proof -
  have 1: "\<not> avail h < 1024" "\<not> avail h - 1024 < 1048576" "\<not> avail h - 1049600 < 8"
    using assms(1) by simp_all
  have rng: "\<not> (n < - (2 ^ 63) \<or> 2 ^ 63 \<le> n)" using assms(2,3) by simp
  have bad: "avail h - 1049608 < 8 * nat n \<or> 2 ^ 63 \<le> 8 * nat n"
    using assms(1,4) by auto
  show ?thesis
    using 1 rng bad
    by (simp add: build_data_def alloc_def length_concat_replicate concat_replicate_single)
qed

text \<open>The three ways \<open>build_data\<close> can end.\<close>

lemma build_data_cases:
  "build_data n h =
     (if avail h < 1049608 then Inl MemoryError
      else if n < - (2 ^ 63) \<or> 2 ^ 63 \<le> n then Inl OverflowError
      else if avail h < 1049608 + 8 * nat n \<or> 2 ^ 60 \<le> n then Inl MemoryError
      else Inr (length (objs h) + 3,
          h\<lparr>objs := objs h @
               [PyStr (concat (replicate 1024 ''x'')),
                PyStr (concat (replicate 1024 (concat (replicate 1024 ''x'')))),
                PyList [length (objs h) + 1],
                PyList (replicate (nat n) (length (objs h) + 1))],
            avail := avail h - (1049608 + 8 * nat n)\<rparr>))"
proof (cases "avail h < 1049608")
  case True
  then show ?thesis by (simp add: build_data_no_room)
next
  case room: False
  show ?thesis
  proof (cases "n < - (2 ^ 63) \<or> 2 ^ 63 \<le> n")
    case True
    with room show ?thesis by (simp add: build_data_overflow)
  next
    case rng: False
    show ?thesis
    proof (cases "avail h < 1049608 + 8 * nat n \<or> 2 ^ 60 \<le> n")
      case True
      with room rng have "build_data n h = Inl MemoryError"
        by (intro build_data_list_too_big) auto
      with room rng True show ?thesis by simp
    next
      case False
      with room rng have "build_data n h =
        Inr (length (objs h) + 3,
          h\<lparr>objs := objs h @
               [PyStr (concat (replicate 1024 ''x'')),
                PyStr (concat (replicate 1024 (concat (replicate 1024 ''x'')))),
                PyList [length (objs h) + 1],
                PyList (replicate (nat n) (length (objs h) + 1))],
            avail := avail h - (1049608 + 8 * nat n)\<rparr>)"
        by (intro build_data_ok) auto
      with room rng False show ?thesis by simp
    qed
  qed
qed

text \<open>What the worker holds once \<open>data\<close> is built: one string, however long the list.\<close>

lemma held_after_build_data:
  assumes "1049608 + 8 * nat n \<le> avail h" and "- (2 ^ 63) \<le> n" and "n < 2 ^ 60"
  shows "held_objs (snd (projr (build_data n h))) (fst (projr (build_data n h))) =
           (length (objs h) + 3) # (if 0 < n then [length (objs h) + 1] else [])"
    and "held_bytes (snd (projr (build_data n h))) (fst (projr (build_data n h))) =
           8 * nat n + (if 0 < n then 1048576 else 0)"
proof -
  show 1: "held_objs (snd (projr (build_data n h))) (fst (projr (build_data n h))) =
           (length (objs h) + 3) # (if 0 < n then [length (objs h) + 1] else [])"
    by (simp add: build_data_ok [OF assms(1) assms(2) assms(3)] held_objs_def nth_append remdups_replicate)
  show "held_bytes (snd (projr (build_data n h))) (fst (projr (build_data n h))) =
           8 * nat n + (if 0 < n then 1048576 else 0)"
    unfolding held_bytes_def 1
    by (simp add: build_data_ok [OF assms(1) assms(2) assms(3)] nth_append length_concat_replicate)
qed

text \<open>
  C6.  With \<open>size_in_mb = 128\<close> the worker idles in sleeps of half a second,
  as the claim says, but what it holds is a list of 128 references to one
  string of 1048576 characters: 1049600 bytes, where 128 megabytes are
  134217728 bytes.
\<close>

theorem memory_worker_holds_one_string:
  "(case memory_worker 128 \<lparr>objs = [], avail = 4294967296\<rparr> [False, False] of
      (st, evs, data, h') \<Rightarrow>
        st = Running \<and> evs = [Nap (1 / 2), Nap (1 / 2)] \<and> data = Some 3 \<and>
        objs h' ! 3 = PyList (replicate 128 1) \<and>
        held_objs h' 3 = [3, 1] \<and> held_bytes h' 3 = 1049600)"
proof -
  let ?h = "\<lparr>objs = [], avail = 4294967296\<rparr>"
  have ok: "1049608 + 8 * nat 128 \<le> avail ?h" "- (2 ^ 63) \<le> (128::int)" "(128::int) < 2 ^ 60"
    by simp_all
  have bd: "build_data 128 ?h = Inr (fst (projr (build_data 128 ?h)), snd (projr (build_data 128 ?h)))"
    by (simp add: build_data_ok [OF ok])
  have a: "fst (projr (build_data 128 ?h)) = 3" by (simp add: build_data_ok [OF ok])
  have o: "objs (snd (projr (build_data 128 ?h))) ! 3 = PyList (replicate 128 1)"
    by (simp add: build_data_ok [OF ok])
  from held_after_build_data [OF ok]
  have h: "held_objs (snd (projr (build_data 128 ?h))) 3 = [3, 1]"
     "held_bytes (snd (projr (build_data 128 ?h))) 3 = 1049600"
    by (simp_all add: a)
  show ?thesis
    by (subst memory_worker_def, subst bd) (simp add: a o h)
qed

text \<open>
  C7.  Building \<open>data\<close> raises \<open>MemoryError\<close> exactly when the memory left does
  not suffice (for the strings, or for a list whose length still fits a
  64-bit index); the worker catches it and returns at once, without a sleep
  and without an exception leaving the target, and its process is not alive
  afterwards.  The only other failure is the \<open>OverflowError\<close> of a repeat count
  that does not fit a 64-bit index: it is not an out-of-memory condition, it
  is not caught, and the worker's process ends with it.
\<close>

theorem memory_worker_silent_on_MemoryError:
  "(build_data n h = Inl MemoryError \<longleftrightarrow>
      avail h < 1049608 \<or>
      - (2 ^ 63) \<le> n \<and> n < 2 ^ 63 \<and> (avail h < 1049608 + 8 * nat n \<or> 2 ^ 60 \<le> n)) \<and>
   (build_data n h = Inl MemoryError \<longrightarrow>
      memory_worker n h obs = (Exited, [], None, h) \<and>
      run_target (Memory_worker n) h obs = (Exited, []) \<and>
      \<not> alive (observe (fst (run_target (Memory_worker n) h obs)) p) \<and>
      is_alive (observe (fst (run_target (Memory_worker n) h obs)) p) \<noteq> Inr True) \<and>
   (\<forall>x. build_data n h = Inl x \<longrightarrow> x = MemoryError \<or> x = OverflowError) \<and>
   (build_data n h = Inl OverflowError \<longleftrightarrow>
      1049608 \<le> avail h \<and> (n < - (2 ^ 63) \<or> 2 ^ 63 \<le> n)) \<and>
   (build_data n h = Inl OverflowError \<longrightarrow>
      memory_worker n h obs = (Crashed OverflowError, [], None, h) \<and>
      run_target (Memory_worker n) h obs = (Crashed OverflowError, []) \<and>
      \<not> alive (observe (fst (run_target (Memory_worker n) h obs)) p))"
proof -
  have 1: "build_data n h = Inl MemoryError \<longleftrightarrow>
      avail h < 1049608 \<or>
      - (2 ^ 63) \<le> n \<and> n < 2 ^ 63 \<and> (avail h < 1049608 + 8 * nat n \<or> 2 ^ 60 \<le> n)"
    unfolding build_data_cases [of n h] by auto
  have 2: "build_data n h = Inl MemoryError \<longrightarrow>
      memory_worker n h obs = (Exited, [], None, h) \<and>
      run_target (Memory_worker n) h obs = (Exited, []) \<and>
      \<not> alive (observe (fst (run_target (Memory_worker n) h obs)) p) \<and>
      is_alive (observe (fst (run_target (Memory_worker n) h obs)) p) \<noteq> Inr True"
    by (simp add: memory_worker_def observe_def is_alive_def)
  have 3: "\<forall>x. build_data n h = Inl x \<longrightarrow> x = MemoryError \<or> x = OverflowError"
    unfolding build_data_cases [of n h] by auto
  have 4: "build_data n h = Inl OverflowError \<longleftrightarrow>
      1049608 \<le> avail h \<and> (n < - (2 ^ 63) \<or> 2 ^ 63 \<le> n)"
    unfolding build_data_cases [of n h] by auto
  have 5: "build_data n h = Inl OverflowError \<longrightarrow>
      memory_worker n h obs = (Crashed OverflowError, [], None, h) \<and>
      run_target (Memory_worker n) h obs = (Crashed OverflowError, []) \<and>
      \<not> alive (observe (fst (run_target (Memory_worker n) h obs)) p)"
    by (simp add: memory_worker_def observe_def)
  from 1 2 3 4 5 show ?thesis by blast
qed

text \<open>Less than a megabyte left; and a repeat count of \<open>2 ^ 63\<close>.\<close>

theorem memory_worker_silent_on_MemoryError_witness:
  "avail \<lparr>objs = [], avail = 1000000\<rparr> < 1049608 \<and>
   build_data 128 \<lparr>objs = [], avail = 1000000\<rparr> = Inl MemoryError \<and>
   memory_worker 128 \<lparr>objs = [], avail = 1000000\<rparr> [False, False, True]
     = (Exited, [], None, \<lparr>objs = [], avail = 1000000\<rparr>) \<and>
   \<not> alive (observe (fst (run_target (Memory_worker 128) \<lparr>objs = [], avail = 1000000\<rparr> [False, False, True]))
        \<lparr>pid = 1, target = Memory_worker 128, alive = True, signalled = False, beh = compliant\<rparr>) \<and>
   build_data (2 ^ 63) \<lparr>objs = [], avail = 4294967296\<rparr> = Inl OverflowError \<and>
   memory_worker (2 ^ 63) \<lparr>objs = [], avail = 4294967296\<rparr> [False, False, True]
     = (Crashed OverflowError, [], None, \<lparr>objs = [], avail = 4294967296\<rparr>)"
  using memory_worker_silent_on_MemoryError [of 128 "\<lparr>objs = [], avail = 1000000\<rparr>"
      "[False, False, True]"
      "\<lparr>pid = 1, target = Memory_worker 128, alive = True, signalled = False, beh = compliant\<rparr>"]
    memory_worker_silent_on_MemoryError [of "2 ^ 63" "\<lparr>objs = [], avail = 4294967296\<rparr>"
      "[False, False, True]"
      "\<lparr>pid = 1, target = Memory_worker 128, alive = True, signalled = False, beh = compliant\<rparr>"]
  by (simp add: observe_def)

end
